theory Spec2Isabelle
  imports Complex_Main
begin

section \<open>Clock, dates and the service state\<close>

text \<open>
  A naive \<^verbatim>\<open>datetime\<close> is modelled as the number of seconds since midnight of the day
  with proleptic Gregorian ordinal 0, a \<^verbatim>\<open>date\<close> as its ordinal (an \<^typ>\<open>int\<close>),
  \<^verbatim>\<open>timedelta(days=n)\<close> as \<open>n\<close> and \<^verbatim>\<open>timedelta(seconds=n)\<close> as \<open>n\<close>.
  Python's \<^verbatim>\<open>date.weekday()\<close> is \<^verbatim>\<open>(toordinal() + 6) % 7\<close>: Monday is 0, Sunday is 6.
  Prices are Python floats, modelled as reals.
\<close>

definition date_of :: "int \<Rightarrow> int" where
  "date_of now = now div 86400"

definition weekday :: "int \<Rightarrow> int" where
  "weekday d = (d + 6) mod 7"

text \<open>One entry of \<^verbatim>\<open>self._session_ohlc\<close>: the dict with keys open, high, low, close.\<close>

record ohlc =
  o_open :: real
  o_high :: real
  o_low :: real
  o_close :: real

text \<open>One entry of \<^verbatim>\<open>self._option_prev_day_cache\<close>.\<close>

record prev_rec =
  for_day :: int
  prev_open :: real
  prev_high :: real
  prev_low :: real
  prev_close :: real

text \<open>
  The fields of \<^verbatim>\<open>KiteAPIService\<close> that the modelled methods read or write.
  \<^verbatim>\<open>None\<close> in an \<^verbatim>\<open>Optional\<close> field is \<open>None\<close>.
\<close>

record service =
  session_ohlc :: "int \<rightharpoonup> ohlc"
  session_day :: "int option"
  option_prev_day_cache :: "int \<rightharpoonup> prev_rec"
  rate_limit_prevday_cooldown_until :: "int option"
  rate_limit_intraday_cooldown_until :: "int option"

section \<open>Session OHLC aggregator\<close>

text \<open>\<^verbatim>\<open>_reset_session_if_needed\<close>: a new day replaces the tracked day and clears the dict.\<close>

definition reset_session_if_needed :: "int \<Rightarrow> service \<Rightarrow> service" where
  "reset_session_if_needed now s =
     (let today = date_of now in
      if session_day s \<noteq> Some today
      then s\<lparr>session_day := Some today, session_ohlc := Map.empty\<rparr>
      else s)"

text \<open>
  \<^verbatim>\<open>_update_session_ohlc(token, ltp)\<close>. The guard \<^verbatim>\<open>not ltp or ltp <= 0\<close> returns
  before the reset for \<^verbatim>\<open>None\<close>, for zero and for a negative price.
\<close>

definition update_session_ohlc :: "int \<Rightarrow> int \<Rightarrow> real option \<Rightarrow> service \<Rightarrow> service" where
  "update_session_ohlc now token ltp s =
     (case ltp of
        None \<Rightarrow> s
      | Some p \<Rightarrow>
          if p = 0 \<or> p \<le> 0 then s
          else
            let s1 = reset_session_if_needed now s in
            (case session_ohlc s1 token of
               None \<Rightarrow>
                 s1\<lparr>session_ohlc := (session_ohlc s1)
                      (token \<mapsto> \<lparr>o_open = p, o_high = p, o_low = p, o_close = p\<rparr>)\<rparr>
             | Some rec \<Rightarrow>
                 let rec1 = (if p > o_high rec then rec\<lparr>o_high := p\<rparr> else rec);
                     rec2 = (if p < o_low rec1 then rec1\<lparr>o_low := p\<rparr> else rec1);
                     rec3 = rec2\<lparr>o_close := p\<rparr>
                 in s1\<lparr>session_ohlc := (session_ohlc s1)(token \<mapsto> rec3)\<rparr>))"

text \<open>A sequence of observations \<open>(now, token, ltp)\<close>, applied in order.\<close>

fun observe_all :: "(int \<times> int \<times> real option) list \<Rightarrow> service \<Rightarrow> service" where
  "observe_all [] s = s"
| "observe_all ((now, token, ltp) # obs) s = observe_all obs (update_session_ohlc now token ltp s)"

text \<open>The state right after \<^verbatim>\<open>__init__\<close> when no disk cache file exists.\<close>

definition init_service :: service where
  "init_service =
     \<lparr>session_ohlc = Map.empty, session_day = None, option_prev_day_cache = Map.empty,
      rate_limit_prevday_cooldown_until = None, rate_limit_intraday_cooldown_until = None\<rparr>"

definition session_ordered :: "service \<Rightarrow> bool" where
  "session_ordered s \<longleftrightarrow> (\<forall>t r. session_ohlc s t = Some r \<longrightarrow> o_low r \<le> o_high r)"

section \<open>Previous trading day\<close>

text \<open>The \<^verbatim>\<open>while d.weekday() >= 5: d -= timedelta(days=1)\<close> loop.\<close>

function roll_back_weekend :: "int \<Rightarrow> int" where
  "roll_back_weekend d = (if weekday d \<ge> 5 then roll_back_weekend (d - 1) else d)"
  by pat_completeness auto
termination
proof (relation "measure (\<lambda>d. nat (weekday d - 4))")
  show "wf (measure (\<lambda>d. nat (weekday d - 4)))" by simp
next
  fix d :: int
  assume "5 \<le> weekday d"
  then have "weekday (d - 1) = weekday d - 1"
    unfolding weekday_def by presburger
  with \<open>5 \<le> weekday d\<close> show "(d - 1, d) \<in> measure (\<lambda>d. nat (weekday d - 4))"
    by simp
qed

declare roll_back_weekend.simps [simp del]

definition get_previous_trading_day :: "int \<Rightarrow> int" where
  "get_previous_trading_day now = roll_back_weekend (date_of now - 1)"

section \<open>First-positive merge of the O/H/L/C fields in \<^verbatim>\<open>get_option_chain\<close>\<close>

text \<open>
  \<^verbatim>\<open>_first_positive(*vals)\<close>: the first value that is not \<^verbatim>\<open>None\<close> and is greater
  than zero, \<^verbatim>\<open>None\<close> when there is none.
\<close>

fun first_positive :: "real option list \<Rightarrow> real option" where
  "first_positive [] = None"
| "first_positive (v # vals) =
     (case v of
        None \<Rightarrow> first_positive vals
      | Some x \<Rightarrow> if x > 0 then Some x else first_positive vals)"

text \<open>
  A dict read with \<^verbatim>\<open>.get('open')\<close>, \<^verbatim>\<open>.get('high')\<close>, \<^verbatim>\<open>.get('low')\<close>,
  \<^verbatim>\<open>.get('close')\<close>: a missing key and a \<^verbatim>\<open>None\<close> value both read as \<^verbatim>\<open>None\<close>.
  \<open>no_src\<close> is the empty dict \<^verbatim>\<open>{}\<close>.
\<close>

record src =
  s_open :: "real option"
  s_high :: "real option"
  s_low :: "real option"
  s_close :: "real option"

definition no_src :: src where
  "no_src = \<lparr>s_open = None, s_high = None, s_low = None, s_close = None\<rparr>"

definition src_of_ohlc :: "ohlc \<Rightarrow> src" where
  "src_of_ohlc r =
     \<lparr>s_open = Some (o_open r), s_high = Some (o_high r),
      s_low = Some (o_low r), s_close = Some (o_close r)\<rparr>"

text \<open>The fields of one entry of \<^verbatim>\<open>kite.quote\<close> that the merge reads.\<close>

record quote =
  last_price :: "real option"
  q_ohlc :: "src option"

record merged =
  m_ltp :: "real option"
  m_open :: "real option"
  m_high :: "real option"
  m_low :: "real option"
  m_close :: "real option"

text \<open>
  The four sources of one token, as the merge reads them:
  \<^verbatim>\<open>quote.get('last_price', 0)\<close> and \<^verbatim>\<open>quote.get('ohlc', {}) or {}\<close> on
  \<^verbatim>\<open>all_quotes.get(token) or all_quotes.get(str(token)) or {}\<close>,
  \<^verbatim>\<open>today_intraday_map.get(int(token), {})\<close> and \<^verbatim>\<open>self._session_ohlc.get(int(token), {})\<close>.
  A token without a quote reads \<^verbatim>\<open>last_price\<close> as 0.
\<close>

definition quote_ltp :: "(int \<rightharpoonup> quote) \<Rightarrow> int \<Rightarrow> real option" where
  "quote_ltp all_quotes token =
     (case all_quotes token of None \<Rightarrow> Some 0 | Some q \<Rightarrow> last_price q)"

definition quote_src :: "(int \<rightharpoonup> quote) \<Rightarrow> int \<Rightarrow> src" where
  "quote_src all_quotes token =
     (case all_quotes token of
        None \<Rightarrow> no_src
      | Some q \<Rightarrow> (case q_ohlc q of None \<Rightarrow> no_src | Some d \<Rightarrow> d))"

definition intraday_src :: "(int \<rightharpoonup> src) \<Rightarrow> int \<Rightarrow> src" where
  "intraday_src today_intraday_map token =
     (case today_intraday_map token of None \<Rightarrow> no_src | Some d \<Rightarrow> d)"

definition session_src :: "service \<Rightarrow> int \<Rightarrow> src" where
  "session_src s token =
     (case session_ohlc s token of None \<Rightarrow> no_src | Some r \<Rightarrow> src_of_ohlc r)"

text \<open>
  The Call side of one strike (\<^verbatim>\<open>ce_ltp\<close> to \<^verbatim>\<open>ce_close\<close> and the row's
  \<^verbatim>\<open>'ce_close'\<close> entry), with the service after the session update.
\<close>

definition ce_merge ::
  "int \<Rightarrow> int \<Rightarrow> (int \<rightharpoonup> quote) \<Rightarrow> (int \<rightharpoonup> src) \<Rightarrow> service \<Rightarrow> merged \<times> service" where
  "ce_merge now ce_token all_quotes today_intraday_map s =
     (let ce_ltp = quote_ltp all_quotes ce_token;
          s' = update_session_ohlc now ce_token ce_ltp s;
          ce_session = session_src s' ce_token;
          ce_ohlc = quote_src all_quotes ce_token;
          ce_intraday = intraday_src today_intraday_map ce_token;
          ce_open = first_positive
            [s_open ce_intraday, s_open ce_ohlc, s_open ce_session, ce_ltp];
          ce_high = first_positive
            [s_high ce_intraday, s_high ce_ohlc, s_high ce_session, ce_open, ce_ltp];
          ce_low = first_positive
            [s_low ce_intraday, s_low ce_ohlc, s_low ce_session, ce_open, ce_ltp];
          ce_close = first_positive
            [s_close ce_intraday, s_close ce_ohlc, s_close ce_session, ce_ltp]
      in (\<lparr>m_ltp = ce_ltp, m_open = ce_open, m_high = ce_high, m_low = ce_low,
           m_close = (case ce_close of None \<Rightarrow> ce_ltp | Some c \<Rightarrow> Some c)\<rparr>, s'))"

text \<open>The Put side of one strike (\<^verbatim>\<open>pe_ltp\<close> and the row's \<^verbatim>\<open>'pe_open'\<close> to \<^verbatim>\<open>'pe_close'\<close>).\<close>

definition pe_merge ::
  "int \<Rightarrow> int \<Rightarrow> (int \<rightharpoonup> quote) \<Rightarrow> (int \<rightharpoonup> src) \<Rightarrow> service \<Rightarrow> merged \<times> service" where
  "pe_merge now pe_token all_quotes today_intraday_map s =
     (let pe_ltp = quote_ltp all_quotes pe_token;
          s' = update_session_ohlc now pe_token pe_ltp s;
          pe_session = session_src s' pe_token;
          pe_ohlc = quote_src all_quotes pe_token;
          pe_intraday = intraday_src today_intraday_map pe_token
      in (\<lparr>m_ltp = pe_ltp,
           m_open = first_positive
             [s_open pe_intraday, s_open pe_session, s_open pe_ohlc, pe_ltp],
           m_high = first_positive
             [s_high pe_intraday, s_high pe_session, s_high pe_ohlc, pe_ltp],
           m_low = first_positive
             [s_low pe_intraday, s_low pe_session, s_low pe_ohlc, pe_ltp],
           m_close = first_positive
             [s_close pe_intraday, s_close pe_session, s_close pe_ohlc, pe_ltp]\<rparr>, s'))"

text \<open>
  The precedence as the specification words it: reconstructed intraday, then the quote's
  OHLC, then the session aggregate, then the last traded price.
\<close>

definition spec_precedence ::
  "real option \<Rightarrow> real option \<Rightarrow> real option \<Rightarrow> real option \<Rightarrow> real option" where
  "spec_precedence intraday quote_ohlc session_aggregate ltp =
     first_positive [intraday, quote_ohlc, session_aggregate, ltp]"

section \<open>Black-Scholes formulas of \<^verbatim>\<open>GreeksCalculator\<close>\<close>

text \<open>
  The arguments are floats (on which \<^verbatim>\<open>_safe_float\<close> is the identity), modelled as
  reals. \<^verbatim>\<open>scipy.stats.norm\<close> is not part of the repository: its density has the closed
  form below; its distribution function \<^verbatim>\<open>norm.cdf\<close> has none and is the parameter
  \<open>cdf\<close> of every formula that calls it. The option type is the string the code compares
  with \<^verbatim>\<open>'CE'\<close>.
\<close>

definition norm_pdf :: "real \<Rightarrow> real" where
  "norm_pdf x = exp (- (x ^ 2) / 2) / sqrt (2 * pi)"

definition d1 :: "real \<Rightarrow> real \<Rightarrow> real \<Rightarrow> real \<Rightarrow> real \<Rightarrow> real" where
  "d1 S K T r sigma =
     (if T \<le> 0 \<or> sigma \<le> 0 \<or> S \<le> 0 \<or> K \<le> 0 then 0
      else (ln (S / K) + (r + 0.5 * sigma ^ 2) * T) / (sigma * sqrt T))"

definition d2 :: "real \<Rightarrow> real \<Rightarrow> real \<Rightarrow> real \<Rightarrow> real \<Rightarrow> real" where
  "d2 S K T r sigma =
     (if T \<le> 0 \<or> sigma \<le> 0 \<or> S \<le> 0 \<or> K \<le> 0 then 0
      else d1 S K T r sigma - sigma * sqrt T)"

definition black_scholes_call ::
  "(real \<Rightarrow> real) \<Rightarrow> real \<Rightarrow> real \<Rightarrow> real \<Rightarrow> real \<Rightarrow> real \<Rightarrow> real" where
  "black_scholes_call cdf S K T r sigma =
     (if T \<le> 0 then max (S - K) 0
      else
        let d1v = d1 S K T r sigma;
            d2v = d2 S K T r sigma;
            call_price = S * cdf d1v - K * exp (- r * T) * cdf d2v
        in max call_price 0)"

definition black_scholes_put ::
  "(real \<Rightarrow> real) \<Rightarrow> real \<Rightarrow> real \<Rightarrow> real \<Rightarrow> real \<Rightarrow> real \<Rightarrow> real" where
  "black_scholes_put cdf S K T r sigma =
     (if T \<le> 0 then max (K - S) 0
      else
        let d1v = d1 S K T r sigma;
            d2v = d2 S K T r sigma;
            put_price = K * exp (- r * T) * cdf (- d2v) - S * cdf (- d1v)
        in max put_price 0)"

definition calculate_delta ::
  "(real \<Rightarrow> real) \<Rightarrow> real \<Rightarrow> real \<Rightarrow> real \<Rightarrow> real \<Rightarrow> real \<Rightarrow> string \<Rightarrow> real" where
  "calculate_delta cdf S K T r sigma option_type =
     (if T \<le> 0 then
        (if option_type = ''CE'' then (if S > K then 1 else 0)
         else (if S < K then - 1 else 0))
      else
        let d1v = d1 S K T r sigma in
        if option_type = ''CE'' then cdf d1v else cdf d1v - 1)"

text \<open>
  In \<open>calculate_gamma\<close> the quotient has a zero denominator when \<open>S = 0\<close>, where numpy
  yields an infinity or a NaN and HOL yields 0: nothing below is stated about that input.
\<close>

definition calculate_gamma :: "real \<Rightarrow> real \<Rightarrow> real \<Rightarrow> real \<Rightarrow> real \<Rightarrow> real" where
  "calculate_gamma S K T r sigma =
     (if T \<le> 0 \<or> sigma \<le> 0 then 0
      else norm_pdf (d1 S K T r sigma) / (S * sigma * sqrt T))"

definition calculate_vega :: "real \<Rightarrow> real \<Rightarrow> real \<Rightarrow> real \<Rightarrow> real \<Rightarrow> real" where
  "calculate_vega S K T r sigma =
     (if T \<le> 0 then 0
      else S * norm_pdf (d1 S K T r sigma) * sqrt T / 100)"

definition calculate_theta ::
  "(real \<Rightarrow> real) \<Rightarrow> real \<Rightarrow> real \<Rightarrow> real \<Rightarrow> real \<Rightarrow> real \<Rightarrow> string \<Rightarrow> real" where
  "calculate_theta cdf S K T r sigma option_type =
     (if T \<le> 0 then 0
      else
        let d1v = d1 S K T r sigma;
            d2v = d2 S K T r sigma;
            theta =
              (if option_type = ''CE''
               then - S * norm_pdf d1v * sigma / (2 * sqrt T) - r * K * exp (- r * T) * cdf d2v
               else - S * norm_pdf d1v * sigma / (2 * sqrt T)
                    + r * K * exp (- r * T) * cdf (- d2v))
        in theta / 365)"

definition calculate_rho ::
  "(real \<Rightarrow> real) \<Rightarrow> real \<Rightarrow> real \<Rightarrow> real \<Rightarrow> real \<Rightarrow> real \<Rightarrow> string \<Rightarrow> real" where
  "calculate_rho cdf S K T r sigma option_type =
     (if T \<le> 0 then 0
      else
        let d2v = d2 S K T r sigma;
            rho = (if option_type = ''CE''
                   then K * T * exp (- r * T) * cdf d2v
                   else - K * T * exp (- r * T) * cdf (- d2v))
        in rho / 100)"

section \<open>Previous-day option OHLC: \<^verbatim>\<open>get_previous_day_option_ohlc\<close>\<close>

text \<open>One daily candle of \<^verbatim>\<open>kite.historical_data\<close>; \<open>c_date\<close> is its datetime.\<close>

record candle =
  c_date :: int
  c_open :: real
  c_high :: real
  c_low :: real
  c_close :: real

text \<open>
  What one \<^verbatim>\<open>kite.historical_data\<close> call does: it returns a list of candles, raises
  an exception whose message contains \<^verbatim>\<open>Too many requests\<close>, or raises any other
  exception. The upstream is a function of the calls made so far in this invocation
  (the tokens, in order) and of the token asked for.
\<close>

datatype hist_response = Candles "candle list" | TooManyRequests | FetchError

text \<open>
  The \<^verbatim>\<open>for c in reversed(candles_sorted)\<close> loop: the first candle, latest first,
  dated on the previous trading day or strictly before it.
\<close>

fun pick_candle :: "int \<Rightarrow> candle list \<Rightarrow> candle option" where
  "pick_candle prev_trading_day [] = None"
| "pick_candle prev_trading_day (c # cs) =
     (let c_day = date_of (c_date c) in
      if c_day = prev_trading_day then Some c
      else if c_day < prev_trading_day then Some c
      else pick_candle prev_trading_day cs)"

text \<open>
  The locals of the token loop and the service they act on. \<open>fs_calls\<close> is not a
  variable of the code: it records the token of every \<^verbatim>\<open>kite.historical_data\<close> call,
  in order, so that statements about network fetches can be made.
\<close>

record fetch_state =
  fs_result :: "int \<rightharpoonup> prev_rec"
  fs_service :: service
  fs_fetched_count :: int
  fs_calls :: "int list"

text \<open>
  One iteration of \<^verbatim>\<open>for token in tokens\<close>; the flag is True when the iteration ends
  in \<^verbatim>\<open>break\<close>. Writing the record to the disk file (\<^verbatim>\<open>_persist_prevday_record\<close>,
  which swallows its own errors) changes none of the modelled fields and is left out.
\<close>

definition prevday_fetch_step ::
  "(int list \<Rightarrow> int \<Rightarrow> hist_response) \<Rightarrow> int \<Rightarrow> int \<Rightarrow> int \<Rightarrow> int \<Rightarrow> fetch_state
     \<Rightarrow> bool \<times> fetch_state" where
  "prevday_fetch_step hist now prev_trading_day max_fetch token st =
     (let fetch =
        (if fs_fetched_count st \<ge> max_fetch then (False, st)
         else
           let st1 = st\<lparr>fs_calls := fs_calls st @ [token]\<rparr> in
           (case hist (fs_calls st) token of
              TooManyRequests \<Rightarrow>
                (True, st1\<lparr>fs_service := (fs_service st1)
                            \<lparr>rate_limit_prevday_cooldown_until := Some (now + 180)\<rparr>\<rparr>)
            | FetchError \<Rightarrow> (False, st1)
            | Candles candles \<Rightarrow>
                if candles = [] then (False, st1)
                else
                  (case pick_candle prev_trading_day (rev (sort_key c_date candles)) of
                     None \<Rightarrow> (False, st1)
                   | Some chosen \<Rightarrow>
                       let rec = \<lparr>for_day = prev_trading_day, prev_open = c_open chosen,
                                  prev_high = c_high chosen, prev_low = c_low chosen,
                                  prev_close = c_close chosen\<rparr>
                       in (False,
                           st1\<lparr>fs_service := (fs_service st1)
                                 \<lparr>option_prev_day_cache :=
                                    (option_prev_day_cache (fs_service st1))(token \<mapsto> rec)\<rparr>,
                               fs_result := (fs_result st1)(token \<mapsto> rec),
                               fs_fetched_count := fs_fetched_count st1 + 1\<rparr>))))
      in
      (case option_prev_day_cache (fs_service st) token of
         None \<Rightarrow> fetch
       | Some cache_rec \<Rightarrow>
           if for_day cache_rec = prev_trading_day
           then (False, st\<lparr>fs_result := (fs_result st)(token \<mapsto> cache_rec)\<rparr>)
           else fetch))"

fun prevday_fetch_loop ::
  "(int list \<Rightarrow> int \<Rightarrow> hist_response) \<Rightarrow> int \<Rightarrow> int \<Rightarrow> int \<Rightarrow> int list \<Rightarrow> fetch_state
     \<Rightarrow> fetch_state" where
  "prevday_fetch_loop hist now prev_trading_day max_fetch [] st = st"
| "prevday_fetch_loop hist now prev_trading_day max_fetch (token # tokens) st =
     (case prevday_fetch_step hist now prev_trading_day max_fetch token st of
        (True, st') \<Rightarrow> st'
      | (False, st') \<Rightarrow> prevday_fetch_loop hist now prev_trading_day max_fetch tokens st')"

text \<open>
  The cooldown test \<^verbatim>\<open>self._rate_limit_prevday_cooldown_until and now < ...\<close>.
\<close>

definition cooldown_active :: "service \<Rightarrow> int \<Rightarrow> bool" where
  "cooldown_active s now =
     (case rate_limit_prevday_cooldown_until s of
        None \<Rightarrow> False
      | Some cooldown_until \<Rightarrow> now < cooldown_until)"

text \<open>
  The whole method: the returned \<open>fs_result\<close> is its return value, \<open>fs_service\<close> the
  service afterwards. Every exception of the loop body is caught inside the loop, so the
  method has no failing outcome.
\<close>

definition get_previous_day_option_ohlc ::
  "(int list \<Rightarrow> int \<Rightarrow> hist_response) \<Rightarrow> int \<Rightarrow> int list \<Rightarrow> int \<Rightarrow> service \<Rightarrow> fetch_state" where
  "get_previous_day_option_ohlc hist now tokens max_fetch s =
     (let st0 = \<lparr>fs_result = Map.empty, fs_service = s, fs_fetched_count = 0, fs_calls = []\<rparr> in
      if tokens = [] then st0
      else
        let prev_trading_day = get_previous_trading_day now in
        if cooldown_active s now then st0
        else prevday_fetch_loop hist now prev_trading_day max_fetch tokens st0)"

text \<open>
  Notions used to state the properties of the fetch: a token is cached for a day with a
  record; every entry of the result is such a cache entry; and no call of a log was
  answered with the rate-limit error.
\<close>

definition cached_for :: "int \<Rightarrow> service \<Rightarrow> int \<Rightarrow> prev_rec \<Rightarrow> bool" where
  "cached_for prev_trading_day s token rec \<longleftrightarrow>
     option_prev_day_cache s token = Some rec \<and> for_day rec = prev_trading_day"

definition result_in_cache :: "int \<Rightarrow> fetch_state \<Rightarrow> bool" where
  "result_in_cache prev_trading_day st \<longleftrightarrow>
     (\<forall>t rec. fs_result st t = Some rec \<longrightarrow> cached_for prev_trading_day (fs_service st) t rec)"

definition no_rate_limit :: "(int list \<Rightarrow> int \<Rightarrow> hist_response) \<Rightarrow> int list \<Rightarrow> bool" where
  "no_rate_limit hist calls \<longleftrightarrow>
     (\<forall>n < length calls. hist (take n calls) (calls ! n) \<noteq> TooManyRequests)"

text \<open>
  Two upstreams for concrete runs: one that has no candle for any token, and one that
  answers the first call of an invocation with a given candle and every later call with
  the rate-limit error.
\<close>

definition upstream_no_candles :: "int list \<Rightarrow> int \<Rightarrow> hist_response" where
  "upstream_no_candles calls token = Candles []"

definition upstream_limit_after_first :: "candle \<Rightarrow> int list \<Rightarrow> int \<Rightarrow> hist_response" where
  "upstream_limit_after_first c calls token = (if calls = [] then Candles [c] else TooManyRequests)"

section \<open>Quote batching loop of \<^verbatim>\<open>get_option_chain\<close>\<close>

text \<open>
  What one \<^verbatim>\<open>kite.quote\<close> call does: it returns a dict, returns something that is not
  a dict, raises an exception whose message contains \<^verbatim>\<open>Too many requests\<close> or
  \<^verbatim>\<open>429\<close>, or raises any other exception. The trace records every call and every
  \<^verbatim>\<open>time.sleep\<close> (in milliseconds) in order; the upstream is a function of the trace so
  far and of the batch asked for.
\<close>

datatype quote_response =
  QuoteDict "int \<rightharpoonup> quote" | QuoteNotDict | QuoteRateLimited | QuoteFailed

datatype event = QuoteCall "int list" | Sleep nat

record quote_state =
  qs_all_quotes :: "int \<rightharpoonup> quote"
  qs_service :: service
  qs_trace :: "event list"

definition batch_size :: nat where
  "batch_size = 400"

text \<open>One iteration of the batching loop, from the \<^verbatim>\<open>try\<close> to the polite pacing sleep.\<close>

definition quote_batch_step ::
  "(event list \<Rightarrow> int list \<Rightarrow> quote_response) \<Rightarrow> int list \<Rightarrow> quote_state \<Rightarrow> quote_state" where
  "quote_batch_step kite_quote batch_tokens st =
     (let st1 = st\<lparr>qs_trace := qs_trace st @ [QuoteCall batch_tokens]\<rparr>;
          st2 =
            (case kite_quote (qs_trace st) batch_tokens of
               QuoteDict batch_quotes \<Rightarrow>
                 st1\<lparr>qs_all_quotes := qs_all_quotes st1 ++ batch_quotes\<rparr>
             | QuoteNotDict \<Rightarrow> st1
             | QuoteFailed \<Rightarrow> st1
             | QuoteRateLimited \<Rightarrow>
                 let st1a = st1\<lparr>qs_trace := qs_trace st1 @ [Sleep 1000]\<rparr>;
                     st1b = st1a\<lparr>qs_trace := qs_trace st1a @ [QuoteCall batch_tokens]\<rparr>
                 in
                 (case kite_quote (qs_trace st1a) batch_tokens of
                    QuoteDict batch_quotes \<Rightarrow>
                      st1b\<lparr>qs_all_quotes := qs_all_quotes st1b ++ batch_quotes\<rparr>
                  | QuoteNotDict \<Rightarrow> st1b
                  | QuoteFailed \<Rightarrow> st1b
                  | QuoteRateLimited \<Rightarrow> st1b))
      in st2\<lparr>qs_trace := qs_trace st2 @ [Sleep 150]\<rparr>)"

text \<open>\<^verbatim>\<open>for i in range(0, len(instrument_tokens), batch_size)\<close>, one slice per iteration.\<close>

function quote_loop ::
  "(event list \<Rightarrow> int list \<Rightarrow> quote_response) \<Rightarrow> int list \<Rightarrow> quote_state \<Rightarrow> quote_state" where
  "quote_loop kite_quote instrument_tokens st =
     (if instrument_tokens = [] then st
      else quote_loop kite_quote (drop batch_size instrument_tokens)
             (quote_batch_step kite_quote (take batch_size instrument_tokens) st))"
  by pat_completeness auto
termination
  by (relation "measure (\<lambda>(kite_quote, instrument_tokens, st). length instrument_tokens)")
    (auto simp: batch_size_def)

declare quote_loop.simps [simp del]

definition fetch_quotes ::
  "(event list \<Rightarrow> int list \<Rightarrow> quote_response) \<Rightarrow> int list \<Rightarrow> service \<Rightarrow> quote_state" where
  "fetch_quotes kite_quote instrument_tokens s =
     quote_loop kite_quote instrument_tokens
       \<lparr>qs_all_quotes = Map.empty, qs_service = s, qs_trace = []\<rparr>"

section \<open>Max pain\<close>

text \<open>The fields of a chain row that \<^verbatim>\<open>_calculate_max_pain\<close> reads.\<close>

record chain_row =
  strike_price :: real
  ce_oi :: int
  pe_oi :: int

text \<open>The inner \<^verbatim>\<open>for row in option_chain_data\<close> loop, \<open>total_pain\<close> as accumulator.\<close>

fun pain_loop :: "real \<Rightarrow> chain_row list \<Rightarrow> real \<Rightarrow> real" where
  "pain_loop strike [] total_pain = total_pain"
| "pain_loop strike (row # rows) total_pain =
     (let row_strike = strike_price row;
          t1 = (if strike > row_strike
                then total_pain + of_int (ce_oi row) * (strike - row_strike)
                else total_pain);
          t2 = (if strike < row_strike
                then t1 + of_int (pe_oi row) * (row_strike - strike)
                else t1)
      in pain_loop strike rows t2)"

definition max_pain_values :: "chain_row list \<Rightarrow> real list \<Rightarrow> (real \<times> real) list" where
  "max_pain_values option_chain_data strikes =
     map (\<lambda>strike. (strike, pain_loop strike option_chain_data 0)) strikes"

text \<open>
  Python's \<^verbatim>\<open>min(xs, key=f)\<close>: the first element whose key is least; on an empty list
  it raises \<^verbatim>\<open>ValueError\<close>, here \<open>None\<close>.
\<close>

fun min_by :: "('a \<Rightarrow> real) \<Rightarrow> 'a list \<Rightarrow> 'a option" where
  "min_by key [] = None"
| "min_by key (x # xs) = Some (foldl (\<lambda>best y. if key y < key best then y else best) x xs)"

text \<open>The \<^verbatim>\<open>except\<close> branch returns 0.\<close>

definition calculate_max_pain :: "chain_row list \<Rightarrow> real list \<Rightarrow> real" where
  "calculate_max_pain option_chain_data strikes =
     (case min_by snd (max_pain_values option_chain_data strikes) of
        None \<Rightarrow> 0
      | Some x \<Rightarrow> fst x)"

text \<open>
  The aggregate pain of a candidate as the specification words it: over the rows, the
  call-side term when the candidate is above the row's strike plus the put-side term when
  it is below, each weighted by the row's open interest.
\<close>

definition spec_pain :: "chain_row list \<Rightarrow> real \<Rightarrow> real" where
  "spec_pain rows candidate =
     (\<Sum>row\<leftarrow>rows.
        (if candidate > strike_price row
         then of_int (ce_oi row) * (candidate - strike_price row) else 0)
        + (if candidate < strike_price row
           then of_int (pe_oi row) * (strike_price row - candidate) else 0))"

section \<open>Properties of the session aggregator\<close>

lemma reset_session_ordered:
  "session_ordered s \<Longrightarrow> session_ordered (reset_session_if_needed now s)"
  by (simp add: session_ordered_def reset_session_if_needed_def Let_def)

lemma update_session_ordered:
  assumes "session_ordered s"
  shows "session_ordered (update_session_ohlc now token ltp s)"
proof (cases ltp)
  case None
  with assms show ?thesis by (simp add: update_session_ohlc_def)
next
  case (Some p)
  let ?s1 = "reset_session_if_needed now s"
  have s1: "session_ordered ?s1" using assms by (rule reset_session_ordered)
  show ?thesis
  proof (cases "p \<le> 0")
    case True
    with Some assms show ?thesis by (simp add: update_session_ohlc_def)
  next
    case False
    show ?thesis
    proof (cases "session_ohlc ?s1 token")
      case None
      with Some False s1 show ?thesis
        by (auto simp: update_session_ohlc_def session_ordered_def Let_def)
    next
      case (Some r)
      then have "o_low r \<le> o_high r" using s1 by (simp add: session_ordered_def)
      with Some \<open>ltp = Some p\<close> False s1 show ?thesis
        by (auto simp: update_session_ohlc_def session_ordered_def Let_def)
    qed
  qed
qed

lemma observe_all_ordered:
  "session_ordered s \<Longrightarrow> session_ordered (observe_all obs s)"
proof (induction obs arbitrary: s)
  case Nil
  then show ?case by simp
next
  case (Cons ob obs)
  obtain now token ltp where ob: "ob = (now, token, ltp)" by (cases ob)
  from Cons.prems have "session_ordered (update_session_ohlc now token ltp s)"
    by (rule update_session_ordered)
  then show ?case using Cons.IH ob by simp
qed

lemma init_service_ordered: "session_ordered init_service"
  by (simp add: session_ordered_def init_service_def)

text \<open>
  Claim C7, as stated, fails: an observation whose day differs from the tracked day does
  not always clear the per-token state. The guard for a price that is \<^verbatim>\<open>None\<close>, zero
  or negative returns before the day is looked at, so a price of 0 observed on day 2 leaves
  the tracked day 1 and the record of token 1 from day 1 in place.
\<close>

theorem stale_session_not_cleared:
  "session_day
     (init_service\<lparr>session_day := Some 1,
        session_ohlc := [1 \<mapsto> \<lparr>o_open = 5, o_high = 5, o_low = 5, o_close = 5\<rparr>]\<rparr>)
     \<noteq> Some (date_of 180000)
   \<and> update_session_ohlc 180000 2 (Some 0)
       (init_service\<lparr>session_day := Some 1,
          session_ohlc := [1 \<mapsto> \<lparr>o_open = 5, o_high = 5, o_low = 5, o_close = 5\<rparr>]\<rparr>) =
      init_service\<lparr>session_day := Some 1,
        session_ohlc := [1 \<mapsto> \<lparr>o_open = 5, o_high = 5, o_low = 5, o_close = 5\<rparr>]\<rparr>
   \<and> session_ohlc
       (update_session_ohlc 180000 2 (Some 0)
          (init_service\<lparr>session_day := Some 1,
             session_ohlc := [1 \<mapsto> \<lparr>o_open = 5, o_high = 5, o_low = 5, o_close = 5\<rparr>]\<rparr>)) 1 =
      Some \<lparr>o_open = 5, o_high = 5, o_low = 5, o_close = 5\<rparr>"
  by (simp add: update_session_ohlc_def date_of_def init_service_def)

text \<open>
  Claim C7, amended. The session OHLC aggregator: a price that is \<^verbatim>\<open>None\<close>, zero or
  negative leaves the whole state unchanged, whatever the day; a positive price observed
  on a day other than the tracked day clears every token's record, so that afterwards the
  dict holds only the observed token, with open = high = low = close = price, and the
  tracked day is the new day; on the tracked day the first positive price of a token sets
  its four fields to the price and later ones set high to the maximum, low to the minimum
  and close to the price, open staying as it was; and after any sequence of observations
  from a state whose records have low at most high (the initial state has none), every
  record has high at least low.
\<close>

theorem session_ohlc_aggregator:
  "update_session_ohlc now token None s = s
   \<and> (p \<le> 0 \<longrightarrow> update_session_ohlc now token (Some p) s = s)
   \<and> (0 < p \<and> session_day s \<noteq> Some (date_of now) \<longrightarrow>
        update_session_ohlc now token (Some p) s =
          s\<lparr>session_day := Some (date_of now),
            session_ohlc := [token \<mapsto> \<lparr>o_open = p, o_high = p, o_low = p, o_close = p\<rparr>]\<rparr>)
   \<and> (0 < p \<and> session_day s = Some (date_of now) \<and> session_ohlc s token = None \<longrightarrow>
        update_session_ohlc now token (Some p) s =
          s\<lparr>session_ohlc := (session_ohlc s)
               (token \<mapsto> \<lparr>o_open = p, o_high = p, o_low = p, o_close = p\<rparr>)\<rparr>)
   \<and> (0 < p \<and> session_day s = Some (date_of now) \<and> session_ohlc s token = Some r \<longrightarrow>
        update_session_ohlc now token (Some p) s =
          s\<lparr>session_ohlc := (session_ohlc s)
               (token \<mapsto> \<lparr>o_open = o_open r, o_high = max (o_high r) p,
                           o_low = min (o_low r) p, o_close = p\<rparr>)\<rparr>)
   \<and> (session_ordered s0 \<and> session_ohlc (observe_all obs s0) t = Some r' \<longrightarrow>
        o_high r' \<ge> o_low r')
   \<and> (session_ohlc (observe_all obs init_service) t = Some r' \<longrightarrow> o_high r' \<ge> o_low r')"
proof (intro conjI impI)
  show "update_session_ohlc now token None s = s"
    by (simp add: update_session_ohlc_def)
next
  assume "p \<le> 0"
  then show "update_session_ohlc now token (Some p) s = s"
    by (simp add: update_session_ohlc_def)
next
  assume "0 < p \<and> session_day s \<noteq> Some (date_of now)"
  then show "update_session_ohlc now token (Some p) s =
      s\<lparr>session_day := Some (date_of now),
        session_ohlc := [token \<mapsto> \<lparr>o_open = p, o_high = p, o_low = p, o_close = p\<rparr>]\<rparr>"
    by (simp add: update_session_ohlc_def reset_session_if_needed_def Let_def)
next
  assume "0 < p \<and> session_day s = Some (date_of now) \<and> session_ohlc s token = None"
  then show "update_session_ohlc now token (Some p) s =
      s\<lparr>session_ohlc := (session_ohlc s)
           (token \<mapsto> \<lparr>o_open = p, o_high = p, o_low = p, o_close = p\<rparr>)\<rparr>"
    by (simp add: update_session_ohlc_def reset_session_if_needed_def Let_def)
next
  assume "0 < p \<and> session_day s = Some (date_of now) \<and> session_ohlc s token = Some r"
  then show "update_session_ohlc now token (Some p) s =
      s\<lparr>session_ohlc := (session_ohlc s)
           (token \<mapsto> \<lparr>o_open = o_open r, o_high = max (o_high r) p,
                       o_low = min (o_low r) p, o_close = p\<rparr>)\<rparr>"
    by (cases r)
      (simp add: update_session_ohlc_def reset_session_if_needed_def Let_def max_def min_def)
next
  assume "session_ordered s0 \<and> session_ohlc (observe_all obs s0) t = Some r'"
  then show "o_low r' \<le> o_high r'"
    using observe_all_ordered [of s0 obs] unfolding session_ordered_def by blast
next
  assume "session_ohlc (observe_all obs init_service) t = Some r'"
  then show "o_low r' \<le> o_high r'"
    using observe_all_ordered [OF init_service_ordered, of obs]
    unfolding session_ordered_def by blast
qed

theorem session_ohlc_aggregator_witness:
  "update_session_ohlc 90000 1 (Some (- 2)) init_service = init_service
   \<and> update_session_ohlc 90000 1 (Some 5) init_service =
       init_service\<lparr>session_day := Some 1,
         session_ohlc := [1 \<mapsto> \<lparr>o_open = 5, o_high = 5, o_low = 5, o_close = 5\<rparr>]\<rparr>
   \<and> update_session_ohlc 180000 2 (Some 4)
        (init_service\<lparr>session_day := Some 1,
           session_ohlc := [1 \<mapsto> \<lparr>o_open = 5, o_high = 5, o_low = 5, o_close = 5\<rparr>]\<rparr>) =
       init_service\<lparr>session_day := Some 2,
         session_ohlc := [2 \<mapsto> \<lparr>o_open = 4, o_high = 4, o_low = 4, o_close = 4\<rparr>]\<rparr>
   \<and> session_ohlc
        (update_session_ohlc 180000 2 (Some 4)
           (init_service\<lparr>session_day := Some 1,
              session_ohlc := [1 \<mapsto> \<lparr>o_open = 5, o_high = 5, o_low = 5, o_close = 5\<rparr>]\<rparr>)) 1 = None
   \<and> update_session_ohlc 90000 2 (Some 4)
        (init_service\<lparr>session_day := Some 1,
           session_ohlc := [1 \<mapsto> \<lparr>o_open = 5, o_high = 5, o_low = 5, o_close = 5\<rparr>]\<rparr>) =
       init_service\<lparr>session_day := Some 1,
         session_ohlc := [1 \<mapsto> \<lparr>o_open = 5, o_high = 5, o_low = 5, o_close = 5\<rparr>,
                          2 \<mapsto> \<lparr>o_open = 4, o_high = 4, o_low = 4, o_close = 4\<rparr>]\<rparr>
   \<and> update_session_ohlc 90000 1 (Some 7)
        (init_service\<lparr>session_day := Some 1,
           session_ohlc := [1 \<mapsto> \<lparr>o_open = 5, o_high = 5, o_low = 5, o_close = 5\<rparr>]\<rparr>) =
       init_service\<lparr>session_day := Some 1,
         session_ohlc := [1 \<mapsto> \<lparr>o_open = 5, o_high = 7, o_low = 5, o_close = 7\<rparr>]\<rparr>
   \<and> session_ohlc
        (observe_all [(90000, 1, Some 5), (90001, 1, Some 7), (90002, 1, Some 3)] init_service) 1 =
       Some \<lparr>o_open = 5, o_high = 7, o_low = 3, o_close = 3\<rparr>
   \<and> o_high \<lparr>o_open = 5, o_high = 7, o_low = 3, o_close = 3\<rparr>
        \<ge> o_low \<lparr>o_open = 5, o_high = 7, o_low = 3, o_close = 3\<rparr>"
proof -
  let ?r5 = "\<lparr>o_open = 5, o_high = 5, o_low = 5, o_close = 5\<rparr>"
  let ?s1 = "init_service\<lparr>session_day := Some 1, session_ohlc := [1 \<mapsto> ?r5]\<rparr>"
  have d: "date_of 90000 = 1" by (simp add: date_of_def)
  have d2: "date_of 180000 = 2" by (simp add: date_of_def)
  have c1: "update_session_ohlc 90000 1 (Some (- 2)) init_service = init_service"
    using session_ohlc_aggregator [where p = "- 2" and now = 90000 and token = 1
        and s = init_service] by simp
  have c2: "update_session_ohlc 90000 1 (Some 5) init_service = ?s1"
    using session_ohlc_aggregator [where p = 5 and now = 90000 and token = 1
        and s = init_service] by (simp add: d init_service_def)
  have c2a: "update_session_ohlc 180000 2 (Some 4) ?s1 =
      init_service\<lparr>session_day := Some 2,
        session_ohlc := [2 \<mapsto> \<lparr>o_open = 4, o_high = 4, o_low = 4, o_close = 4\<rparr>]\<rparr>"
    using session_ohlc_aggregator [where p = 4 and now = 180000 and token = 2 and s = ?s1]
    by (simp add: d2 init_service_def)
  have c2b: "session_ohlc (update_session_ohlc 180000 2 (Some 4) ?s1) 1 = None"
    by (simp only: c2a) simp
  have c3: "update_session_ohlc 90000 2 (Some 4) ?s1 =
      ?s1\<lparr>session_ohlc := [1 \<mapsto> ?r5, 2 \<mapsto> \<lparr>o_open = 4, o_high = 4, o_low = 4, o_close = 4\<rparr>]\<rparr>"
    using session_ohlc_aggregator [where p = 4 and now = 90000 and token = 2 and s = ?s1]
    by (simp add: d init_service_def)
  have c4: "update_session_ohlc 90000 1 (Some 7) ?s1 =
      ?s1\<lparr>session_ohlc := [1 \<mapsto> \<lparr>o_open = 5, o_high = 7, o_low = 5, o_close = 7\<rparr>]\<rparr>"
    using session_ohlc_aggregator [where p = 7 and now = 90000 and token = 1 and s = ?s1
        and r = ?r5]
    by (simp add: d init_service_def)
  have c5: "session_ohlc
        (observe_all [(90000, 1, Some 5), (90001, 1, Some 7), (90002, 1, Some 3)] init_service) 1 =
       Some \<lparr>o_open = 5, o_high = 7, o_low = 3, o_close = 3\<rparr>"
    by (simp add: update_session_ohlc_def reset_session_if_needed_def date_of_def
        init_service_def Let_def)
  have c6: "o_high \<lparr>o_open = 5, o_high = 7, o_low = 3, o_close = 3\<rparr>
        \<ge> o_low \<lparr>o_open = 5, o_high = 7, o_low = 3, o_close = 3\<rparr>"
    using c5 session_ohlc_aggregator [where obs = "[(90000, 1, Some 5), (90001, 1, Some 7), (90002, 1, Some 3)]"
        and t = 1 and r' = "\<lparr>o_open = 5, o_high = 7, o_low = 3, o_close = 3\<rparr>"]
    by blast
  show ?thesis using c1 c2 c2a c2b c3 c4 c5 c6 by simp
qed

section \<open>Properties of the previous trading day\<close>

lemma weekday_range: "0 \<le> weekday d \<and> weekday d < 7"
  by (simp add: weekday_def)

lemma roll_back_weekend_cases:
  "roll_back_weekend d =
     (if weekday d = 6 then d - 2 else if weekday d = 5 then d - 1 else d)"
proof -
  have wk: "weekday d < 5 \<Longrightarrow> roll_back_weekend d = d" for d
    by (simp add: roll_back_weekend.simps)
  have sat: "roll_back_weekend d = d - 1" if "weekday d = 5" for d
  proof -
    from that have "weekday (d - 1) = 4" unfolding weekday_def by presburger
    then have "roll_back_weekend (d - 1) = d - 1" using wk [of "d - 1"] by simp
    with that show ?thesis by (subst roll_back_weekend.simps) simp
  qed
  have sun: "roll_back_weekend d = d - 2" if "weekday d = 6" for d
  proof -
    from that have "weekday (d - 1) = 5" unfolding weekday_def by presburger
    then have "roll_back_weekend (d - 1) = d - 1 - 1" by (rule sat)
    with that show ?thesis by (subst roll_back_weekend.simps) simp
  qed
  have "weekday d < 5 \<or> weekday d = 5 \<or> weekday d = 6"
    using weekday_range [of d] by arith
  then show ?thesis using wk [of d] sat [of d] sun [of d] by auto
qed

text \<open>
  Claim C8. \<^verbatim>\<open>_get_previous_trading_day\<close> subtracts one day from the current date and
  rolls back one more day at a time while the day is a Saturday or a Sunday: the result
  is the day before unless that is a Saturday (then one day more) or a Sunday (then two
  days more); it is never a weekend day, it lies before today with only weekend days in
  between, and on a Monday it is the Friday three days earlier.
\<close>

theorem previous_trading_day:
  "get_previous_trading_day now = roll_back_weekend (date_of now - 1)
   \<and> get_previous_trading_day now =
       (if weekday (date_of now - 1) = 6 then date_of now - 3
        else if weekday (date_of now - 1) = 5 then date_of now - 2
        else date_of now - 1)
   \<and> weekday (get_previous_trading_day now) < 5
   \<and> get_previous_trading_day now < date_of now
   \<and> (\<forall>d. get_previous_trading_day now < d \<and> d < date_of now \<longrightarrow> weekday d \<ge> 5)
   \<and> (weekday (date_of now) = 0 \<longrightarrow>
        get_previous_trading_day now = date_of now - 3
        \<and> weekday (get_previous_trading_day now) = 4)"
proof -
  define today where "today = date_of now"
  have eq: "get_previous_trading_day now =
       (if weekday (today - 1) = 6 then today - 3
        else if weekday (today - 1) = 5 then today - 2
        else today - 1)"
    by (simp add: get_previous_trading_day_def roll_back_weekend_cases today_def)
  have a: "weekday (get_previous_trading_day now) < 5"
    unfolding eq weekday_def by presburger
  have b: "get_previous_trading_day now < today"
    unfolding eq by simp
  have c: "\<forall>d. get_previous_trading_day now < d \<and> d < today \<longrightarrow> weekday d \<ge> 5"
    unfolding eq weekday_def by presburger
  have d: "weekday today = 0 \<longrightarrow>
        get_previous_trading_day now = today - 3 \<and> weekday (get_previous_trading_day now) = 4"
    unfolding eq weekday_def by presburger
  have e: "get_previous_trading_day now = roll_back_weekend (date_of now - 1)"
    by (simp add: get_previous_trading_day_def)
  from e eq a b c d show ?thesis unfolding today_def by blast
qed

theorem previous_trading_day_witness:
  "weekday (date_of 63929296800) = 0
   \<and> get_previous_trading_day 63929296800 = date_of 63929296800 - 3
   \<and> weekday (get_previous_trading_day 63929296800) = 4"
proof -
  have monday: "weekday (date_of 63929296800) = 0"
    by (simp add: date_of_def weekday_def)
  from previous_trading_day [of 63929296800] monday
  have "get_previous_trading_day 63929296800 = date_of 63929296800 - 3
        \<and> weekday (get_previous_trading_day 63929296800) = 4"
    by blast
  with monday show ?thesis by blast
qed

section \<open>Properties of the first-positive merge\<close>

text \<open>
  On the Call side the open field follows the stated precedence (intraday, quote OHLC,
  session aggregate, last traded price), and so does close whenever one source of the
  chain is positive.
\<close>

lemma ce_merge_follows_precedence:
  "m_open (fst (ce_merge now t qs im s)) =
     spec_precedence (s_open (intraday_src im t)) (s_open (quote_src qs t))
       (s_open (session_src (snd (ce_merge now t qs im s)) t)) (quote_ltp qs t)
   \<and> (spec_precedence (s_close (intraday_src im t)) (s_close (quote_src qs t))
        (s_close (session_src (snd (ce_merge now t qs im s)) t)) (quote_ltp qs t) \<noteq> None \<longrightarrow>
      m_close (fst (ce_merge now t qs im s)) =
        spec_precedence (s_close (intraday_src im t)) (s_close (quote_src qs t))
          (s_close (session_src (snd (ce_merge now t qs im s)) t)) (quote_ltp qs t))"
  by (auto simp: ce_merge_def spec_precedence_def Let_def split: option.splits)

text \<open>
  Claim C1. On the Put side the session aggregate is consulted before the quote's OHLC.
  For a put token quoted with last price 10 and quote OHLC open 12, no intraday record and
  a fresh session (whose aggregate the same call sets to 10), the Put merge yields open 10
  where the stated precedence yields 12; the Call merge on the same data yields 12.
\<close>

theorem pe_merge_session_before_quote:
  "m_open (fst (pe_merge 63929296800 2
       [2 \<mapsto> \<lparr>last_price = Some 10,
                q_ohlc = Some \<lparr>s_open = Some 12, s_high = Some 15,
                               s_low = Some 9, s_close = Some 11\<rparr>\<rparr>]
       Map.empty init_service)) = Some 10
   \<and> spec_precedence None (Some 12) (Some 10) (Some 10) = Some 12
   \<and> m_open (fst (ce_merge 63929296800 2
       [2 \<mapsto> \<lparr>last_price = Some 10,
                q_ohlc = Some \<lparr>s_open = Some 12, s_high = Some 15,
                               s_low = Some 9, s_close = Some 11\<rparr>\<rparr>]
       Map.empty init_service)) = Some 12"
  by (simp add: pe_merge_def ce_merge_def spec_precedence_def quote_ltp_def quote_src_def
      intraday_src_def session_src_def src_of_ohlc_def no_src_def update_session_ohlc_def
      reset_session_if_needed_def init_service_def Let_def)

section \<open>Properties of the Black-Scholes formulas\<close>

text \<open>
  Claim C5. For every spot, strike, time to expiry and volatility that are all positive,
  and any rate, \<^verbatim>\<open>calculate_delta\<close> returns for a call the distribution function at d1,
  which lies between 0 and 1, and for a put that value minus one, which lies between -1
  and 0: the put delta is the call delta minus one exactly. The distribution function is
  any function with values between 0 and 1, as \<^verbatim>\<open>norm.cdf\<close> is.
\<close>

theorem delta_bounds:
  "(\<forall>x. 0 \<le> cdf x \<and> cdf x \<le> 1) \<and> 0 < S \<and> 0 < K \<and> 0 < T \<and> 0 < sigma \<longrightarrow>
     0 \<le> calculate_delta cdf S K T r sigma ''CE''
     \<and> calculate_delta cdf S K T r sigma ''CE'' \<le> 1
     \<and> - 1 \<le> calculate_delta cdf S K T r sigma ''PE''
     \<and> calculate_delta cdf S K T r sigma ''PE'' \<le> 0
     \<and> calculate_delta cdf S K T r sigma ''PE'' = calculate_delta cdf S K T r sigma ''CE'' - 1
     \<and> calculate_delta cdf S K T r sigma ''CE'' =
         cdf ((ln (S / K) + (r + 0.5 * sigma ^ 2) * T) / (sigma * sqrt T))"
proof (intro impI)
  assume h: "(\<forall>x. 0 \<le> cdf x \<and> cdf x \<le> 1) \<and> 0 < S \<and> 0 < K \<and> 0 < T \<and> 0 < sigma"
  let ?d = "(ln (S / K) + (r + 0.5 * sigma ^ 2) * T) / (sigma * sqrt T)"
  have dd: "d1 S K T r sigma = ?d" using h by (simp add: d1_def)
  have ce: "calculate_delta cdf S K T r sigma ''CE'' = cdf ?d"
    using h dd by (simp add: calculate_delta_def Let_def)
  have pe: "calculate_delta cdf S K T r sigma ''PE'' = cdf ?d - 1"
    using h dd by (simp add: calculate_delta_def Let_def)
  from h have "0 \<le> cdf ?d" "cdf ?d \<le> 1" by blast+
  then show "0 \<le> calculate_delta cdf S K T r sigma ''CE''
     \<and> calculate_delta cdf S K T r sigma ''CE'' \<le> 1
     \<and> - 1 \<le> calculate_delta cdf S K T r sigma ''PE''
     \<and> calculate_delta cdf S K T r sigma ''PE'' \<le> 0
     \<and> calculate_delta cdf S K T r sigma ''PE'' = calculate_delta cdf S K T r sigma ''CE'' - 1
     \<and> calculate_delta cdf S K T r sigma ''CE'' = cdf ?d"
    unfolding ce pe by simp
qed

theorem delta_bounds_witness:
  "(\<forall>x::real. 0 \<le> 1 / (1 + exp (- x)) \<and> 1 / (1 + exp (- x)) \<le> 1)
   \<and> calculate_delta (\<lambda>x. 1 / (1 + exp (- x))) 100 100 1 0 2 ''CE'' = 1 / (1 + exp (- 1))
   \<and> calculate_delta (\<lambda>x. 1 / (1 + exp (- x))) 100 100 1 0 2 ''PE'' = 1 / (1 + exp (- 1)) - 1
   \<and> 0 \<le> calculate_delta (\<lambda>x. 1 / (1 + exp (- x))) 100 100 1 0 2 ''CE''
   \<and> calculate_delta (\<lambda>x. 1 / (1 + exp (- x))) 100 100 1 0 2 ''CE'' \<le> 1
   \<and> - 1 \<le> calculate_delta (\<lambda>x. 1 / (1 + exp (- x))) 100 100 1 0 2 ''PE''
   \<and> calculate_delta (\<lambda>x. 1 / (1 + exp (- x))) 100 100 1 0 2 ''PE'' \<le> 0"
proof -
  have rng: "\<forall>x::real. 0 \<le> 1 / (1 + exp (- x)) \<and> 1 / (1 + exp (- x)) \<le> 1"
  proof
    fix x :: real
    have "0 < exp (- x)" by simp
    then show "0 \<le> 1 / (1 + exp (- x)) \<and> 1 / (1 + exp (- x)) \<le> 1"
      by (simp add: add_pos_pos)
  qed
  have ce: "calculate_delta (\<lambda>x. 1 / (1 + exp (- x))) 100 100 1 0 2 ''CE'' = 1 / (1 + exp (- 1))"
    by (simp add: calculate_delta_def d1_def Let_def)
  have pe: "calculate_delta (\<lambda>x. 1 / (1 + exp (- x))) 100 100 1 0 2 ''PE''
      = 1 / (1 + exp (- 1)) - 1"
    by (simp add: calculate_delta_def d1_def Let_def)
  from delta_bounds [where cdf = "\<lambda>x. 1 / (1 + exp (- x))" and S = 100 and K = 100 and T = 1
      and sigma = 2 and r = 0] rng
  have "0 \<le> calculate_delta (\<lambda>x. 1 / (1 + exp (- x))) 100 100 1 0 2 ''CE''
     \<and> calculate_delta (\<lambda>x. 1 / (1 + exp (- x))) 100 100 1 0 2 ''CE'' \<le> 1
     \<and> - 1 \<le> calculate_delta (\<lambda>x. 1 / (1 + exp (- x))) 100 100 1 0 2 ''PE''
     \<and> calculate_delta (\<lambda>x. 1 / (1 + exp (- x))) 100 100 1 0 2 ''PE'' \<le> 0"
    by simp
  with rng ce pe show ?thesis by blast
qed

lemma norm_pdf_zero: "norm_pdf 0 = 1 / sqrt (2 * pi)"
  by (simp add: norm_pdf_def)

lemma norm_pdf_pos: "0 < norm_pdf x"
  by (simp add: norm_pdf_def)

text \<open>
  Claim C2, as stated, fails: with volatility 0 and a positive time to expiry
  \<^verbatim>\<open>calculate_vega\<close> does not return 0. For spot 100, strike 100, one year, rate 0.05 and
  volatility 0 it evaluates d1 to 0 and returns 100 times the density at 0 divided by 100.
\<close>

theorem vega_nonzero_at_zero_sigma:
  "calculate_vega 100 100 1 (1 / 20) 0 = 1 / sqrt (2 * pi)
   \<and> calculate_vega 100 100 1 (1 / 20) 0 \<noteq> 0"
  by (simp add: calculate_vega_def d1_def norm_pdf_zero)

text \<open>
  Claim C2, amended. \<^verbatim>\<open>_d1\<close> and \<^verbatim>\<open>_d2\<close> return 0 when any of S, K, T, sigma is
  non-positive. At T at most 0 the price formulas return the intrinsic value, gamma, vega,
  theta and rho return 0, and delta returns 1 or 0 for a call (by S > K) and -1 or 0 for
  a put (by S < K). \<^verbatim>\<open>calculate_gamma\<close> also returns 0 when sigma is non-positive. For a
  positive T with a non-positive sigma, S or K, the remaining formulas are evaluated at
  d1 = d2 = 0 and are in general not 0: delta is the distribution function at 0 (minus one
  for a put), the prices are the closed forms at 0 floored at 0, vega is S times the
  density at 0 times the root of T over 100, theta is the closed form at 0 over 365 (with
  the rate term subtracted for a call and added for a put), and rho is K T exp(-rT) times
  the distribution function at 0 over 100 (negated for a put). For positive T and sigma
  with S or K non-positive and S not 0, gamma is the density at 0 over S sigma root T,
  which is not 0.
\<close>

theorem degenerate_inputs:
  "(T \<le> 0 \<or> sigma \<le> 0 \<or> S \<le> 0 \<or> K \<le> 0 \<longrightarrow>
      d1 S K T r sigma = 0 \<and> d2 S K T r sigma = 0)
   \<and> (T \<le> 0 \<longrightarrow>
        black_scholes_call cdf S K T r sigma = max (S - K) 0
        \<and> black_scholes_put cdf S K T r sigma = max (K - S) 0
        \<and> calculate_gamma S K T r sigma = 0
        \<and> calculate_vega S K T r sigma = 0
        \<and> calculate_theta cdf S K T r sigma option_type = 0
        \<and> calculate_rho cdf S K T r sigma option_type = 0
        \<and> calculate_delta cdf S K T r sigma ''CE'' = (if S > K then 1 else 0)
        \<and> calculate_delta cdf S K T r sigma ''PE'' = (if S < K then - 1 else 0))
   \<and> (sigma \<le> 0 \<longrightarrow> calculate_gamma S K T r sigma = 0)
   \<and> (0 < T \<and> (sigma \<le> 0 \<or> S \<le> 0 \<or> K \<le> 0) \<longrightarrow>
        calculate_delta cdf S K T r sigma ''CE'' = cdf 0
        \<and> calculate_delta cdf S K T r sigma ''PE'' = cdf 0 - 1
        \<and> black_scholes_call cdf S K T r sigma =
            max (S * cdf 0 - K * exp (- r * T) * cdf 0) 0
        \<and> black_scholes_put cdf S K T r sigma =
            max (K * exp (- r * T) * cdf 0 - S * cdf 0) 0
        \<and> calculate_vega S K T r sigma = S * norm_pdf 0 * sqrt T / 100
        \<and> calculate_theta cdf S K T r sigma ''CE'' =
            (- S * norm_pdf 0 * sigma / (2 * sqrt T) - r * K * exp (- r * T) * cdf 0) / 365
        \<and> calculate_theta cdf S K T r sigma ''PE'' =
            (- S * norm_pdf 0 * sigma / (2 * sqrt T) + r * K * exp (- r * T) * cdf 0) / 365
        \<and> calculate_rho cdf S K T r sigma ''CE'' = K * T * exp (- r * T) * cdf 0 / 100
        \<and> calculate_rho cdf S K T r sigma ''PE'' = - K * T * exp (- r * T) * cdf 0 / 100)
   \<and> (0 < T \<and> 0 < sigma \<and> S \<noteq> 0 \<and> (S \<le> 0 \<or> K \<le> 0) \<longrightarrow>
        calculate_gamma S K T r sigma = norm_pdf 0 / (S * sigma * sqrt T)
        \<and> calculate_gamma S K T r sigma \<noteq> 0)"
proof (intro conjI impI)
  assume "T \<le> 0 \<or> sigma \<le> 0 \<or> S \<le> 0 \<or> K \<le> 0"
  then show "d1 S K T r sigma = 0" by (auto simp: d1_def)
next
  assume "T \<le> 0 \<or> sigma \<le> 0 \<or> S \<le> 0 \<or> K \<le> 0"
  then show "d2 S K T r sigma = 0" by (auto simp: d2_def)
next
  assume "T \<le> 0"
  then show "black_scholes_call cdf S K T r sigma = max (S - K) 0"
    by (simp add: black_scholes_call_def)
next
  assume "T \<le> 0"
  then show "black_scholes_put cdf S K T r sigma = max (K - S) 0"
    by (simp add: black_scholes_put_def)
next
  assume "T \<le> 0"
  then show "calculate_gamma S K T r sigma = 0" by (simp add: calculate_gamma_def)
next
  assume "T \<le> 0"
  then show "calculate_vega S K T r sigma = 0" by (simp add: calculate_vega_def)
next
  assume "T \<le> 0"
  then show "calculate_theta cdf S K T r sigma option_type = 0"
    by (simp add: calculate_theta_def)
next
  assume "T \<le> 0"
  then show "calculate_rho cdf S K T r sigma option_type = 0"
    by (simp add: calculate_rho_def)
next
  assume "T \<le> 0"
  then show "calculate_delta cdf S K T r sigma ''CE'' = (if S > K then 1 else 0)"
    by (simp add: calculate_delta_def)
next
  assume "T \<le> 0"
  then show "calculate_delta cdf S K T r sigma ''PE'' = (if S < K then - 1 else 0)"
    by (simp add: calculate_delta_def)
next
  assume "sigma \<le> 0"
  then show "calculate_gamma S K T r sigma = 0" by (simp add: calculate_gamma_def)
next
  assume h: "0 < T \<and> (sigma \<le> 0 \<or> S \<le> 0 \<or> K \<le> 0)"
  then have z: "d1 S K T r sigma = 0" "d2 S K T r sigma = 0"
    by (auto simp: d1_def d2_def)
  from h have t: "\<not> T \<le> 0" by simp
  show "calculate_delta cdf S K T r sigma ''CE'' = cdf 0"
    using t z by (simp add: calculate_delta_def)
  show "calculate_delta cdf S K T r sigma ''PE'' = cdf 0 - 1"
    using t z by (simp add: calculate_delta_def)
  show "black_scholes_call cdf S K T r sigma = max (S * cdf 0 - K * exp (- r * T) * cdf 0) 0"
    using t z by (simp add: black_scholes_call_def)
  show "black_scholes_put cdf S K T r sigma = max (K * exp (- r * T) * cdf 0 - S * cdf 0) 0"
    using t z by (simp add: black_scholes_put_def)
  show "calculate_vega S K T r sigma = S * norm_pdf 0 * sqrt T / 100"
    using t z by (simp add: calculate_vega_def)
  show "calculate_theta cdf S K T r sigma ''CE'' =
      (- S * norm_pdf 0 * sigma / (2 * sqrt T) - r * K * exp (- r * T) * cdf 0) / 365"
    using t z by (simp add: calculate_theta_def)
  show "calculate_theta cdf S K T r sigma ''PE'' =
      (- S * norm_pdf 0 * sigma / (2 * sqrt T) + r * K * exp (- r * T) * cdf 0) / 365"
    using t z by (simp add: calculate_theta_def)
  show "calculate_rho cdf S K T r sigma ''CE'' = K * T * exp (- r * T) * cdf 0 / 100"
    using t z by (simp add: calculate_rho_def)
  show "calculate_rho cdf S K T r sigma ''PE'' = - K * T * exp (- r * T) * cdf 0 / 100"
    using t z by (simp add: calculate_rho_def)
next
  assume h: "0 < T \<and> 0 < sigma \<and> S \<noteq> 0 \<and> (S \<le> 0 \<or> K \<le> 0)"
  then have z: "d1 S K T r sigma = 0" by (auto simp: d1_def)
  from h z show g: "calculate_gamma S K T r sigma = norm_pdf 0 / (S * sigma * sqrt T)"
    by (simp add: calculate_gamma_def)
  have "norm_pdf 0 \<noteq> 0" using norm_pdf_pos [of 0] by simp
  with h show "calculate_gamma S K T r sigma \<noteq> 0" unfolding g by simp
qed

theorem degenerate_inputs_witness:
  "d1 100 90 0 (1 / 20) (1 / 5) = 0
   \<and> black_scholes_call (\<lambda>x. 1 / (1 + exp (- x))) 100 90 0 (1 / 20) (1 / 5) = 10
   \<and> black_scholes_put (\<lambda>x. 1 / (1 + exp (- x))) 100 90 0 (1 / 20) (1 / 5) = 0
   \<and> calculate_delta (\<lambda>x. 1 / (1 + exp (- x))) 100 90 0 (1 / 20) (1 / 5) ''CE'' = 1
   \<and> calculate_gamma 100 100 1 0 0 = 0
   \<and> calculate_delta (\<lambda>x. 1 / (1 + exp (- x))) 100 100 1 0 0 ''CE'' = 1 / 2
   \<and> calculate_delta (\<lambda>x. 1 / (1 + exp (- x))) 100 100 1 0 0 ''PE'' = - (1 / 2)
   \<and> black_scholes_call (\<lambda>x. 1 / (1 + exp (- x))) 100 50 1 0 0 = 25
   \<and> calculate_vega 100 100 1 0 0 = 1 / sqrt (2 * pi)
   \<and> calculate_rho (\<lambda>x. 1 / (1 + exp (- x))) 100 100 1 0 0 ''CE'' = 1 / 2
   \<and> calculate_rho (\<lambda>x. 1 / (1 + exp (- x))) 100 100 1 0 0 ''PE'' = - (1 / 2)
   \<and> calculate_theta (\<lambda>x. 1 / (1 + exp (- x))) 100 100 1 (1 / 20) 0 ''CE''
       = - (5 / 2) * exp (- (1 / 20)) / 365
   \<and> calculate_theta (\<lambda>x. 1 / (1 + exp (- x))) 100 100 1 (1 / 20) 0 ''PE''
       = (5 / 2) * exp (- (1 / 20)) / 365
   \<and> calculate_gamma 100 (- 100) 1 0 (1 / 5) = 1 / (20 * sqrt (2 * pi))
   \<and> calculate_gamma 100 (- 100) 1 0 (1 / 5) \<noteq> 0"
proof -
  let ?cdf = "\<lambda>x::real. 1 / (1 + exp (- x))"
  note a = degenerate_inputs [where cdf = ?cdf and S = 100 and K = 90 and T = 0
      and r = "1 / 20" and sigma = "1 / 5"]
  note b = degenerate_inputs [where cdf = ?cdf and S = 100 and K = 100 and T = 1
      and r = 0 and sigma = 0]
  note c = degenerate_inputs [where cdf = ?cdf and S = 100 and K = 50 and T = 1
      and r = 0 and sigma = 0]
  note d = degenerate_inputs [where cdf = ?cdf and S = 100 and K = 100 and T = 1
      and r = "1 / 20" and sigma = 0]
  note e = degenerate_inputs [where cdf = ?cdf and S = 100 and K = "- 100" and T = 1
      and r = 0 and sigma = "1 / 5"]
  have a1: "d1 100 90 0 (1 / 20) (1 / 5) = 0" using a by simp
  have a2: "black_scholes_call ?cdf 100 90 0 (1 / 20) (1 / 5) = 10" using a by simp
  have a3: "black_scholes_put ?cdf 100 90 0 (1 / 20) (1 / 5) = 0" using a by simp
  have a4: "calculate_delta ?cdf 100 90 0 (1 / 20) (1 / 5) ''CE'' = 1" using a by simp
  have b1: "calculate_gamma 100 100 1 0 0 = 0" using b by simp
  have b2: "calculate_delta ?cdf 100 100 1 0 0 ''CE'' = 1 / 2" using b by simp
  have b3: "calculate_delta ?cdf 100 100 1 0 0 ''PE'' = - (1 / 2)" using b by simp
  have b4: "calculate_vega 100 100 1 0 0 = 1 / sqrt (2 * pi)"
    using b by (simp add: norm_pdf_zero)
  have b5: "calculate_rho ?cdf 100 100 1 0 0 ''CE'' = 1 / 2" using b by simp
  have b6: "calculate_rho ?cdf 100 100 1 0 0 ''PE'' = - (1 / 2)" using b by simp
  have c1: "black_scholes_call ?cdf 100 50 1 0 0 = 25" using c by simp
  have d1: "calculate_theta ?cdf 100 100 1 (1 / 20) 0 ''CE'' = - (5 / 2) * exp (- (1 / 20)) / 365"
    using d by simp
  have d2: "calculate_theta ?cdf 100 100 1 (1 / 20) 0 ''PE'' = (5 / 2) * exp (- (1 / 20)) / 365"
    using d by simp
  have e1: "calculate_gamma 100 (- 100) 1 0 (1 / 5) = 1 / (20 * sqrt (2 * pi))"
    using e by (simp add: norm_pdf_zero)
  have e2: "calculate_gamma 100 (- 100) 1 0 (1 / 5) \<noteq> 0" using e by simp
  from a1 a2 a3 a4 b1 b2 b3 b4 b5 b6 c1 d1 d2 e1 e2 show ?thesis by blast
qed

section \<open>Properties of the previous-day fetch\<close>

text \<open>
  Claim C10. While the prev-day cooldown is active (a cooldown timestamp is set and now
  is before it), \<^verbatim>\<open>get_previous_day_option_ohlc\<close> returns the empty map for every token
  list, makes no network call and leaves the service as it was, whatever the cache holds:
  the cooldown check comes before the loop that serves cached records.
\<close>

theorem cooldown_returns_empty:
  "rate_limit_prevday_cooldown_until s = Some cooldown_until \<and> now < cooldown_until \<longrightarrow>
     fs_result (get_previous_day_option_ohlc hist now tokens max_fetch s) = Map.empty
     \<and> fs_calls (get_previous_day_option_ohlc hist now tokens max_fetch s) = []
     \<and> fs_service (get_previous_day_option_ohlc hist now tokens max_fetch s) = s"
  by (simp add: get_previous_day_option_ohlc_def cooldown_active_def Let_def)

theorem cooldown_returns_empty_witness:
  "rate_limit_prevday_cooldown_until
     (init_service\<lparr>option_prev_day_cache :=
        [5 \<mapsto> \<lparr>for_day = get_previous_trading_day 63929296800, prev_open = 1, prev_high = 2,
                 prev_low = 1, prev_close = 2\<rparr>],
        rate_limit_prevday_cooldown_until := Some 63929296900\<rparr>) = Some 63929296900
   \<and> (63929296800::int) < 63929296900
   \<and> fs_result (get_previous_day_option_ohlc (\<lambda>calls token. FetchError) 63929296800 [5] 60
        (init_service\<lparr>option_prev_day_cache :=
           [5 \<mapsto> \<lparr>for_day = get_previous_trading_day 63929296800, prev_open = 1, prev_high = 2,
                    prev_low = 1, prev_close = 2\<rparr>],
           rate_limit_prevday_cooldown_until := Some 63929296900\<rparr>)) 5 = None"
  using cooldown_returns_empty [where now = 63929296800 and cooldown_until = 63929296900
      and hist = "\<lambda>calls token. FetchError" and tokens = "[5]" and max_fetch = 60
      and s = "init_service\<lparr>option_prev_day_cache :=
        [5 \<mapsto> \<lparr>for_day = get_previous_trading_day 63929296800, prev_open = 1, prev_high = 2,
                 prev_low = 1, prev_close = 2\<rparr>],
        rate_limit_prevday_cooldown_until := Some 63929296900\<rparr>"]
  by simp

section \<open>Properties of the quote batching loop\<close>

lemma quote_batch_step_service:
  "qs_service (quote_batch_step kite_quote batch st) = qs_service st"
  by (simp add: quote_batch_step_def Let_def split: quote_response.splits)

lemma quote_loop_service:
  "qs_service (quote_loop kite_quote tokens st) = qs_service st"
proof (induction kite_quote tokens st rule: quote_loop.induct)
  case (1 kite_quote instrument_tokens st)
  show ?case
  proof (cases "instrument_tokens = []")
    case True
    then show ?thesis by (subst quote_loop.simps) simp
  next
    case False
    with "1" show ?thesis
      by (subst quote_loop.simps) (simp add: quote_batch_step_service)
  qed
qed

lemma quote_loop_single_batch:
  assumes "tokens \<noteq> []" and "length tokens \<le> 400"
  shows "quote_loop kite_quote tokens st = quote_batch_step kite_quote tokens st"
proof -
  have "quote_loop kite_quote tokens st =
      quote_loop kite_quote (drop batch_size tokens)
        (quote_batch_step kite_quote (take batch_size tokens) st)"
    using assms(1) by (subst quote_loop.simps) simp
  also have "drop batch_size tokens = []" using assms(2) by (simp add: batch_size_def)
  also have "take batch_size tokens = tokens" using assms(2) by (simp add: batch_size_def)
  finally show ?thesis by (simp add: quote_loop.simps [of _ "[]"])
qed

text \<open>
  Claim C4. In the quote-fetch loop a batch whose call is rate limited is called again
  exactly once, after a sleep of one second: the batch's trace is call, sleep 1000, call,
  sleep 150. When the retry does not return a dict the batch adds nothing to the result,
  and the loop goes on with the next slice (the loop is a total function: it never
  raises). A call that fails otherwise is not retried. The loop never changes the service,
  so both cooldown timestamps are as before; and for a single batch whose first call is
  rate limited and whose retry returns a dict, the result is exactly that dict.
\<close>

theorem quote_rate_limit_retry:
  "(kite_quote (qs_trace st) batch = QuoteRateLimited \<longrightarrow>
      qs_trace (quote_batch_step kite_quote batch st) =
        qs_trace st @ [QuoteCall batch, Sleep 1000, QuoteCall batch, Sleep 150]
      \<and> qs_all_quotes (quote_batch_step kite_quote batch st) =
          (case kite_quote (qs_trace st @ [QuoteCall batch, Sleep 1000]) batch of
             QuoteDict batch_quotes \<Rightarrow> qs_all_quotes st ++ batch_quotes
           | QuoteNotDict \<Rightarrow> qs_all_quotes st
           | QuoteRateLimited \<Rightarrow> qs_all_quotes st
           | QuoteFailed \<Rightarrow> qs_all_quotes st))
   \<and> (kite_quote (qs_trace st) batch = QuoteFailed \<longrightarrow>
        qs_trace (quote_batch_step kite_quote batch st) =
          qs_trace st @ [QuoteCall batch, Sleep 150]
        \<and> qs_all_quotes (quote_batch_step kite_quote batch st) = qs_all_quotes st)
   \<and> (tokens \<noteq> [] \<longrightarrow>
        quote_loop kite_quote tokens st =
          quote_loop kite_quote (drop 400 tokens)
            (quote_batch_step kite_quote (take 400 tokens) st))
   \<and> qs_service (quote_loop kite_quote tokens st) = qs_service st
   \<and> rate_limit_prevday_cooldown_until (qs_service (fetch_quotes kite_quote tokens s)) =
       rate_limit_prevday_cooldown_until s
   \<and> rate_limit_intraday_cooldown_until (qs_service (fetch_quotes kite_quote tokens s)) =
       rate_limit_intraday_cooldown_until s
   \<and> (tokens \<noteq> [] \<and> length tokens \<le> 400
        \<and> kite_quote [] tokens = QuoteRateLimited
        \<and> kite_quote [QuoteCall tokens, Sleep 1000] tokens = QuoteDict full \<longrightarrow>
        fetch_quotes kite_quote tokens s =
          \<lparr>qs_all_quotes = full, qs_service = s,
           qs_trace = [QuoteCall tokens, Sleep 1000, QuoteCall tokens, Sleep 150]\<rparr>)"
proof (intro conjI impI)
  assume "kite_quote (qs_trace st) batch = QuoteRateLimited"
  then show "qs_trace (quote_batch_step kite_quote batch st) =
        qs_trace st @ [QuoteCall batch, Sleep 1000, QuoteCall batch, Sleep 150]"
    by (simp add: quote_batch_step_def Let_def split: quote_response.splits)
next
  assume "kite_quote (qs_trace st) batch = QuoteRateLimited"
  then show "qs_all_quotes (quote_batch_step kite_quote batch st) =
          (case kite_quote (qs_trace st @ [QuoteCall batch, Sleep 1000]) batch of
             QuoteDict batch_quotes \<Rightarrow> qs_all_quotes st ++ batch_quotes
           | QuoteNotDict \<Rightarrow> qs_all_quotes st
           | QuoteRateLimited \<Rightarrow> qs_all_quotes st
           | QuoteFailed \<Rightarrow> qs_all_quotes st)"
    by (simp add: quote_batch_step_def Let_def split: quote_response.splits)
next
  assume "kite_quote (qs_trace st) batch = QuoteFailed"
  then show "qs_trace (quote_batch_step kite_quote batch st) =
          qs_trace st @ [QuoteCall batch, Sleep 150]"
    by (simp add: quote_batch_step_def Let_def)
next
  assume "kite_quote (qs_trace st) batch = QuoteFailed"
  then show "qs_all_quotes (quote_batch_step kite_quote batch st) = qs_all_quotes st"
    by (simp add: quote_batch_step_def Let_def)
next
  assume "tokens \<noteq> []"
  then show "quote_loop kite_quote tokens st =
          quote_loop kite_quote (drop 400 tokens)
            (quote_batch_step kite_quote (take 400 tokens) st)"
    by (subst quote_loop.simps) (simp add: batch_size_def)
next
  show "qs_service (quote_loop kite_quote tokens st) = qs_service st"
    by (rule quote_loop_service)
next
  show "rate_limit_prevday_cooldown_until (qs_service (fetch_quotes kite_quote tokens s)) =
       rate_limit_prevday_cooldown_until s"
    by (simp add: fetch_quotes_def quote_loop_service)
next
  show "rate_limit_intraday_cooldown_until (qs_service (fetch_quotes kite_quote tokens s)) =
       rate_limit_intraday_cooldown_until s"
    by (simp add: fetch_quotes_def quote_loop_service)
next
  assume h: "tokens \<noteq> [] \<and> length tokens \<le> 400
        \<and> kite_quote [] tokens = QuoteRateLimited
        \<and> kite_quote [QuoteCall tokens, Sleep 1000] tokens = QuoteDict full"
  then have "fetch_quotes kite_quote tokens s =
      quote_batch_step kite_quote tokens
        \<lparr>qs_all_quotes = Map.empty, qs_service = s, qs_trace = []\<rparr>"
    by (simp add: fetch_quotes_def quote_loop_single_batch)
  also have "\<dots> = \<lparr>qs_all_quotes = full, qs_service = s,
           qs_trace = [QuoteCall tokens, Sleep 1000, QuoteCall tokens, Sleep 150]\<rparr>"
    using h by (simp add: quote_batch_step_def Let_def)
  finally show "fetch_quotes kite_quote tokens s =
          \<lparr>qs_all_quotes = full, qs_service = s,
           qs_trace = [QuoteCall tokens, Sleep 1000, QuoteCall tokens, Sleep 150]\<rparr>" .
qed

theorem quote_rate_limit_retry_witness:
  "fetch_quotes
     (\<lambda>trace batch. if trace = [] then QuoteRateLimited
        else QuoteDict [7 \<mapsto> \<lparr>last_price = Some 10, q_ohlc = None\<rparr>])
     [7] init_service =
     \<lparr>qs_all_quotes = [7 \<mapsto> \<lparr>last_price = Some 10, q_ohlc = None\<rparr>],
      qs_service = init_service,
      qs_trace = [QuoteCall [7], Sleep 1000, QuoteCall [7], Sleep 150]\<rparr>
   \<and> qs_all_quotes (quote_batch_step (\<lambda>trace batch. QuoteRateLimited) [7]
        \<lparr>qs_all_quotes = Map.empty, qs_service = init_service, qs_trace = []\<rparr>) = Map.empty
   \<and> qs_trace (quote_batch_step (\<lambda>trace batch. QuoteRateLimited) [7]
        \<lparr>qs_all_quotes = Map.empty, qs_service = init_service, qs_trace = []\<rparr>) =
       [QuoteCall [7], Sleep 1000, QuoteCall [7], Sleep 150]
   \<and> qs_trace (quote_batch_step (\<lambda>trace batch. QuoteFailed) [7]
        \<lparr>qs_all_quotes = Map.empty, qs_service = init_service, qs_trace = []\<rparr>) =
       [QuoteCall [7], Sleep 150]"
proof -
  let ?q = "[7 \<mapsto> \<lparr>last_price = Some 10, q_ohlc = None\<rparr>]"
  let ?st0 = "\<lparr>qs_all_quotes = Map.empty, qs_service = init_service, qs_trace = []\<rparr>"
  have a: "fetch_quotes
     (\<lambda>trace batch. if trace = [] then QuoteRateLimited else QuoteDict ?q) [7] init_service =
     \<lparr>qs_all_quotes = ?q, qs_service = init_service,
      qs_trace = [QuoteCall [7], Sleep 1000, QuoteCall [7], Sleep 150]\<rparr>"
    using quote_rate_limit_retry [where tokens = "[7]" and full = ?q and s = init_service
        and kite_quote = "\<lambda>trace batch. if trace = [] then QuoteRateLimited else QuoteDict ?q"]
    by simp
  have b: "qs_all_quotes (quote_batch_step (\<lambda>trace batch. QuoteRateLimited) [7] ?st0) = Map.empty"
    using quote_rate_limit_retry [where st = ?st0 and batch = "[7]"
        and kite_quote = "\<lambda>trace batch. QuoteRateLimited"]
    by simp
  have c: "qs_trace (quote_batch_step (\<lambda>trace batch. QuoteRateLimited) [7] ?st0) =
       [QuoteCall [7], Sleep 1000, QuoteCall [7], Sleep 150]"
    using quote_rate_limit_retry [where st = ?st0 and batch = "[7]"
        and kite_quote = "\<lambda>trace batch. QuoteRateLimited"]
    by simp
  have d: "qs_trace (quote_batch_step (\<lambda>trace batch. QuoteFailed) [7] ?st0) =
       [QuoteCall [7], Sleep 150]"
    using quote_rate_limit_retry [where st = ?st0 and batch = "[7]"
        and kite_quote = "\<lambda>trace batch. QuoteFailed"]
    by simp
  from a b c d show ?thesis by blast
qed

section \<open>Properties of max pain\<close>

lemma pain_loop_spec:
  "pain_loop strike rows total_pain = total_pain + spec_pain rows strike"
  by (induction rows arbitrary: total_pain) (simp_all add: spec_pain_def Let_def)

lemma foldl_min_in:
  "foldl (\<lambda>best y. if key y < key best then y else best) x xs \<in> set (x # xs)"
  by (induction xs arbitrary: x) auto

lemma foldl_min_le_start:
  "key (foldl (\<lambda>best y. if (key y :: real) < key best then y else best) x xs) \<le> key x"
proof (induction xs arbitrary: x)
  case Nil
  then show ?case by simp
next
  case (Cons a xs)
  show ?case using Cons [of a] Cons [of x] by auto
qed

lemma foldl_min_le:
  "y \<in> set (x # xs) \<Longrightarrow>
     key (foldl (\<lambda>best y. if (key y :: real) < key best then y else best) x xs) \<le> key y"
proof (induction xs arbitrary: x)
  case Nil
  then show ?case by simp
next
  case (Cons a xs)
  let ?x' = "if key a < key x then a else x"
  from Cons.prems have "y = x \<or> y = a \<or> y \<in> set xs" by auto
  then show ?case
  proof (elim disjE)
    assume "y = x"
    then show ?thesis using foldl_min_le_start [of key ?x' xs] by (auto split: if_splits)
  next
    assume "y = a"
    then show ?thesis using foldl_min_le_start [of key ?x' xs] by (auto split: if_splits)
  next
    assume "y \<in> set xs"
    then show ?thesis using Cons.IH [of ?x'] by simp
  qed
qed

lemma min_by_some:
  "xs \<noteq> [] \<Longrightarrow> \<exists>m. min_by key xs = Some m \<and> m \<in> set xs \<and> (\<forall>y\<in>set xs. key m \<le> key y)"
proof (cases xs)
  case Nil
  assume "xs \<noteq> []"
  with Nil show ?thesis by simp
next
  case (Cons x rest)
  then show ?thesis
    using foldl_min_in [of key x rest] foldl_min_le [of _ x rest key] by simp
qed

lemma calculate_max_pain_minimal:
  assumes "strikes \<noteq> []"
  shows "calculate_max_pain rows strikes \<in> set strikes
     \<and> (\<forall>c\<in>set strikes. spec_pain rows (calculate_max_pain rows strikes) \<le> spec_pain rows c)"
proof -
  let ?vals = "max_pain_values rows strikes"
  have vals: "?vals = map (\<lambda>strike. (strike, spec_pain rows strike)) strikes"
    by (simp add: max_pain_values_def pain_loop_spec)
  then have "?vals \<noteq> []" using assms by simp
  from min_by_some [OF this, of snd]
  obtain m where m: "min_by snd ?vals = Some m" "m \<in> set ?vals" "\<forall>y\<in>set ?vals. snd m \<le> snd y"
    by blast
  from m(2) vals obtain k where k: "k \<in> set strikes" "m = (k, spec_pain rows k)" by auto
  have res: "calculate_max_pain rows strikes = k"
    using m(1) k(2) by (simp add: calculate_max_pain_def)
  have "\<forall>c\<in>set strikes. spec_pain rows k \<le> spec_pain rows c"
  proof
    fix c assume "c \<in> set strikes"
    then have "(c, spec_pain rows c) \<in> set ?vals" using vals by auto
    with m(3) k(2) show "spec_pain rows k \<le> spec_pain rows c" by fastforce
  qed
  with res k(1) show ?thesis by simp
qed


lemma spec_pain_Nil: "spec_pain [] c = 0"
  by (simp add: spec_pain_def)

lemma spec_pain_Cons:
  "spec_pain (row # rows) c =
     (if c > strike_price row then of_int (ce_oi row) * (c - strike_price row) else 0)
     + (if c < strike_price row then of_int (pe_oi row) * (strike_price row - c) else 0)
     + spec_pain rows c"
  by (simp add: spec_pain_def)

lemma spec_pain_nonneg:
  "\<forall>row\<in>set rows. 0 \<le> ce_oi row \<and> 0 \<le> pe_oi row \<Longrightarrow> 0 \<le> spec_pain rows c"
  by (induction rows) (simp_all add: spec_pain_Nil spec_pain_Cons)

lemma spec_pain_zero:
  "\<forall>row\<in>set rows. strike_price row \<noteq> c \<longrightarrow> ce_oi row = 0 \<and> pe_oi row = 0 \<Longrightarrow>
     spec_pain rows c = 0"
  by (induction rows) (auto simp: spec_pain_Nil spec_pain_Cons)

lemma spec_pain_pos:
  assumes "\<forall>row\<in>set rows. 0 \<le> ce_oi row \<and> 0 \<le> pe_oi row"
    and "row \<in> set rows" and "strike_price row \<noteq> c"
    and "0 < ce_oi row" and "0 < pe_oi row"
  shows "0 < spec_pain rows c"
  using assms(1,2)
proof (induction rows)
  case Nil
  then show ?case by simp
next
  case (Cons a rows)
  have rest: "0 \<le> spec_pain rows c" using Cons.prems(1) by (simp add: spec_pain_nonneg)
  have a_nonneg: "0 \<le> (if c > strike_price a then of_int (ce_oi a) * (c - strike_price a) else 0)
     + (if c < strike_price a then of_int (pe_oi a) * (strike_price a - c) else 0)"
    using Cons.prems(1) by simp
  show ?case
  proof (cases "a = row")
    case True
    have "0 < (if c > strike_price a then of_int (ce_oi a) * (c - strike_price a) else 0)
     + (if c < strike_price a then of_int (pe_oi a) * (strike_price a - c) else 0)"
      using True assms(3,4,5) by auto
    with rest show ?thesis by (simp add: spec_pain_Cons)
  next
    case False
    with Cons.prems(2) have "row \<in> set rows" by simp
    with Cons.IH Cons.prems(1) have "0 < spec_pain rows c" by simp
    with a_nonneg show ?thesis unfolding spec_pain_Cons by linarith
  qed
qed

lemma calculate_max_pain_concentrated:
  assumes k: "k \<in> set strikes"
    and ex: "\<exists>row\<in>set rows. strike_price row = k"
    and conc: "\<forall>row\<in>set rows.
        if strike_price row = k then 0 < ce_oi row \<and> 0 < pe_oi row
        else ce_oi row = 0 \<and> pe_oi row = 0"
  shows "calculate_max_pain rows strikes = k"
proof (rule ccontr)
  let ?m = "calculate_max_pain rows strikes"
  assume ne: "?m \<noteq> k"
  from k have "strikes \<noteq> []" by auto
  from calculate_max_pain_minimal [OF this, of rows] k
  have le: "spec_pain rows ?m \<le> spec_pain rows k" by blast
  have zero: "spec_pain rows k = 0"
    using conc by (intro spec_pain_zero) (auto split: if_splits)
  from ex obtain row where row: "row \<in> set rows" "strike_price row = k" by blast
  with conc have pos: "0 < ce_oi row" "0 < pe_oi row" by auto
  have nonneg: "\<forall>row\<in>set rows. 0 \<le> ce_oi row \<and> 0 \<le> pe_oi row"
    using conc by (auto split: if_splits)
  have "0 < spec_pain rows ?m"
    using spec_pain_pos [OF nonneg row(1) _ pos, of ?m] row(2) ne by simp
  with le zero show False by simp
qed

text \<open>
  Claim C6. For every candidate the pain that \<^verbatim>\<open>_calculate_max_pain\<close> computes is the sum
  over the rows of the call-side term (candidate above the row's strike) plus the put-side
  term (candidate below it), each weighted by the row's open interest. For a non-empty
  candidate list the returned strike is a candidate and no candidate has a smaller pain.
  When all open interest sits at one strike of the candidate list (positive on both sides
  in the rows of that strike, zero in all others), the returned strike is that strike.
\<close>

theorem max_pain_minimises:
  "max_pain_values rows strikes = map (\<lambda>c. (c, spec_pain rows c)) strikes
   \<and> (strikes \<noteq> [] \<longrightarrow>
        calculate_max_pain rows strikes \<in> set strikes
        \<and> (\<forall>c\<in>set strikes.
              spec_pain rows (calculate_max_pain rows strikes) \<le> spec_pain rows c))
   \<and> (k \<in> set strikes \<and> (\<exists>row\<in>set rows. strike_price row = k)
        \<and> (\<forall>row\<in>set rows.
              if strike_price row = k then 0 < ce_oi row \<and> 0 < pe_oi row
              else ce_oi row = 0 \<and> pe_oi row = 0) \<longrightarrow>
        calculate_max_pain rows strikes = k)"
proof (intro conjI impI)
  show "max_pain_values rows strikes = map (\<lambda>c. (c, spec_pain rows c)) strikes"
    by (simp add: max_pain_values_def pain_loop_spec)
next
  assume "strikes \<noteq> []"
  then show "calculate_max_pain rows strikes \<in> set strikes"
    using calculate_max_pain_minimal by blast
next
  assume "strikes \<noteq> []"
  then show "\<forall>c\<in>set strikes.
      spec_pain rows (calculate_max_pain rows strikes) \<le> spec_pain rows c"
    using calculate_max_pain_minimal by blast
next
  assume "k \<in> set strikes \<and> (\<exists>row\<in>set rows. strike_price row = k)
        \<and> (\<forall>row\<in>set rows.
              if strike_price row = k then 0 < ce_oi row \<and> 0 < pe_oi row
              else ce_oi row = 0 \<and> pe_oi row = 0)"
  then show "calculate_max_pain rows strikes = k"
    using calculate_max_pain_concentrated [of k strikes rows] by blast
qed

theorem max_pain_minimises_witness:
  "calculate_max_pain
     [\<lparr>strike_price = 100, ce_oi = 0, pe_oi = 0\<rparr>,
      \<lparr>strike_price = 110, ce_oi = 5, pe_oi = 7\<rparr>,
      \<lparr>strike_price = 120, ce_oi = 0, pe_oi = 0\<rparr>] [100, 110, 120] = 110
   \<and> calculate_max_pain
       [\<lparr>strike_price = 100, ce_oi = 4, pe_oi = 1\<rparr>,
        \<lparr>strike_price = 110, ce_oi = 2, pe_oi = 2\<rparr>,
        \<lparr>strike_price = 120, ce_oi = 1, pe_oi = 4\<rparr>] [100, 110, 120] \<in> {100, 110, 120}
   \<and> max_pain_values
       [\<lparr>strike_price = 100, ce_oi = 4, pe_oi = 1\<rparr>,
        \<lparr>strike_price = 110, ce_oi = 2, pe_oi = 2\<rparr>,
        \<lparr>strike_price = 120, ce_oi = 1, pe_oi = 4\<rparr>] [100, 110, 120] =
       [(100, 100), (110, 80), (120, 100)]"
proof -
  let ?conc = "[\<lparr>strike_price = 100, ce_oi = 0, pe_oi = 0\<rparr>,
      \<lparr>strike_price = 110, ce_oi = 5, pe_oi = 7\<rparr>,
      \<lparr>strike_price = 120, ce_oi = 0, pe_oi = 0\<rparr>]"
  let ?rows = "[\<lparr>strike_price = 100, ce_oi = 4, pe_oi = 1\<rparr>,
        \<lparr>strike_price = 110, ce_oi = 2, pe_oi = 2\<rparr>,
        \<lparr>strike_price = 120, ce_oi = 1, pe_oi = 4\<rparr>]"
  have a: "calculate_max_pain ?conc [100, 110, 120] = 110"
    using max_pain_minimises [where rows = ?conc and strikes = "[100, 110, 120]" and k = 110]
    by simp
  have b: "calculate_max_pain ?rows [100, 110, 120] \<in> {100, 110, 120}"
    using max_pain_minimises [where rows = ?rows and strikes = "[100, 110, 120]"]
    by simp
  have c: "max_pain_values ?rows [100, 110, 120] = [(100, 100), (110, 80), (120, 100)]"
    by (simp add: max_pain_values_def Let_def)
  from a b c show ?thesis by blast
qed

section \<open>The token loop of the previous-day fetch\<close>

subsection \<open>One iteration\<close>

lemma step_cached:
  assumes "cached_for prev (fs_service st) token rec"
  shows "prevday_fetch_step hist now prev max_fetch token st =
      (False, st\<lparr>fs_result := (fs_result st)(token \<mapsto> rec)\<rparr>)"
  using assms by (simp add: prevday_fetch_step_def cached_for_def Let_def)

lemma step_deferred:
  assumes "\<forall>rec. \<not> cached_for prev (fs_service st) token rec"
    and "fs_fetched_count st \<ge> max_fetch"
  shows "prevday_fetch_step hist now prev max_fetch token st = (False, st)"
  using assms
  by (simp add: prevday_fetch_step_def cached_for_def Let_def split: option.splits)

lemma step_rate_limited:
  assumes "\<forall>rec. \<not> cached_for prev (fs_service st) token rec"
    and "fs_fetched_count st < max_fetch"
    and "hist (fs_calls st) token = TooManyRequests"
  shows "prevday_fetch_step hist now prev max_fetch token st =
      (True, st\<lparr>fs_calls := fs_calls st @ [token],
                fs_service := (fs_service st)
                  \<lparr>rate_limit_prevday_cooldown_until := Some (now + 180)\<rparr>\<rparr>)"
  using assms
  by (simp add: prevday_fetch_step_def cached_for_def Let_def split: option.splits)

lemma step_fetch_error:
  assumes "\<forall>rec. \<not> cached_for prev (fs_service st) token rec"
    and "fs_fetched_count st < max_fetch"
    and "hist (fs_calls st) token = FetchError"
  shows "prevday_fetch_step hist now prev max_fetch token st =
      (False, st\<lparr>fs_calls := fs_calls st @ [token]\<rparr>)"
  using assms
  by (simp add: prevday_fetch_step_def cached_for_def Let_def split: option.splits)

lemma step_no_candle:
  assumes "\<forall>rec. \<not> cached_for prev (fs_service st) token rec"
    and "fs_fetched_count st < max_fetch"
    and "hist (fs_calls st) token = Candles candles"
    and "candles = [] \<or> pick_candle prev (rev (sort_key c_date candles)) = None"
  shows "prevday_fetch_step hist now prev max_fetch token st =
      (False, st\<lparr>fs_calls := fs_calls st @ [token]\<rparr>)"
  using assms
  by (auto simp: prevday_fetch_step_def cached_for_def Let_def split: option.splits)

lemma step_stored:
  assumes "\<forall>rec. \<not> cached_for prev (fs_service st) token rec"
    and "fs_fetched_count st < max_fetch"
    and "hist (fs_calls st) token = Candles candles"
    and "candles \<noteq> []"
    and "pick_candle prev (rev (sort_key c_date candles)) = Some chosen"
  shows "prevday_fetch_step hist now prev max_fetch token st =
      (False,
       st\<lparr>fs_calls := fs_calls st @ [token],
          fs_service := (fs_service st)
            \<lparr>option_prev_day_cache := (option_prev_day_cache (fs_service st))
               (token \<mapsto> \<lparr>for_day = prev, prev_open = c_open chosen,
                  prev_high = c_high chosen, prev_low = c_low chosen,
                  prev_close = c_close chosen\<rparr>)\<rparr>,
          fs_result := (fs_result st)
            (token \<mapsto> \<lparr>for_day = prev, prev_open = c_open chosen,
               prev_high = c_high chosen, prev_low = c_low chosen,
               prev_close = c_close chosen\<rparr>),
          fs_fetched_count := fs_fetched_count st + 1\<rparr>)"
  using assms
  by (simp add: prevday_fetch_step_def cached_for_def Let_def split: option.splits)

lemma step_outcomes:
  obtains (served) rec where "cached_for prev (fs_service st) token rec"
      "prevday_fetch_step hist now prev max_fetch token st =
        (False, st\<lparr>fs_result := (fs_result st)(token \<mapsto> rec)\<rparr>)"
  | (deferred) "\<forall>rec. \<not> cached_for prev (fs_service st) token rec"
      "prevday_fetch_step hist now prev max_fetch token st = (False, st)"
  | (limited) "\<forall>rec. \<not> cached_for prev (fs_service st) token rec"
      "hist (fs_calls st) token = TooManyRequests"
      "prevday_fetch_step hist now prev max_fetch token st =
        (True, st\<lparr>fs_calls := fs_calls st @ [token],
                  fs_service := (fs_service st)
                    \<lparr>rate_limit_prevday_cooldown_until := Some (now + 180)\<rparr>\<rparr>)"
  | (skipped) "\<forall>rec. \<not> cached_for prev (fs_service st) token rec"
      "hist (fs_calls st) token \<noteq> TooManyRequests"
      "prevday_fetch_step hist now prev max_fetch token st =
        (False, st\<lparr>fs_calls := fs_calls st @ [token]\<rparr>)"
  | (stored) rec where "\<forall>rec. \<not> cached_for prev (fs_service st) token rec"
      "hist (fs_calls st) token \<noteq> TooManyRequests" "for_day rec = prev"
      "prevday_fetch_step hist now prev max_fetch token st =
        (False,
         st\<lparr>fs_calls := fs_calls st @ [token],
            fs_service := (fs_service st)
              \<lparr>option_prev_day_cache := (option_prev_day_cache (fs_service st))(token \<mapsto> rec)\<rparr>,
            fs_result := (fs_result st)(token \<mapsto> rec),
            fs_fetched_count := fs_fetched_count st + 1\<rparr>)"
proof (cases "\<exists>rec. cached_for prev (fs_service st) token rec")
  case True
  then obtain rec where "cached_for prev (fs_service st) token rec" by blast
  then show ?thesis
    using served [of rec]
      step_cached [where hist = hist and st = st and token = token and prev = prev
        and max_fetch = max_fetch and now = now and rec = rec]
    by simp
next
  case nc: False
  then have nc': "\<forall>rec. \<not> cached_for prev (fs_service st) token rec" by blast
  show ?thesis
  proof (cases "fs_fetched_count st \<ge> max_fetch")
    case True
    have "prevday_fetch_step hist now prev max_fetch token st = (False, st)"
      using nc' True
        step_deferred [where hist = hist and st = st and token = token and prev = prev
          and max_fetch = max_fetch and now = now]
      by blast
    with nc' show ?thesis using deferred by simp
  next
    case False
    then have lt: "fs_fetched_count st < max_fetch" by simp
    show ?thesis
    proof (cases "hist (fs_calls st) token")
      case TooManyRequests
      have "prevday_fetch_step hist now prev max_fetch token st =
          (True, st\<lparr>fs_calls := fs_calls st @ [token],
                  fs_service := (fs_service st)
                    \<lparr>rate_limit_prevday_cooldown_until := Some (now + 180)\<rparr>\<rparr>)"
        using nc' lt TooManyRequests
          step_rate_limited [where hist = hist and st = st and token = token and prev = prev
            and max_fetch = max_fetch and now = now]
        by blast
      with nc' TooManyRequests show ?thesis using limited by simp
    next
      case FetchError
      have "prevday_fetch_step hist now prev max_fetch token st =
          (False, st\<lparr>fs_calls := fs_calls st @ [token]\<rparr>)"
        using nc' lt FetchError
          step_fetch_error [where hist = hist and st = st and token = token and prev = prev
            and max_fetch = max_fetch and now = now]
        by blast
      with nc' FetchError show ?thesis using skipped by simp
    next
      case (Candles candles)
      show ?thesis
      proof (cases "candles = [] \<or> pick_candle prev (rev (sort_key c_date candles)) = None")
        case True
        have "prevday_fetch_step hist now prev max_fetch token st =
            (False, st\<lparr>fs_calls := fs_calls st @ [token]\<rparr>)"
          using nc' lt Candles True
            step_no_candle [where hist = hist and st = st and token = token and prev = prev
              and max_fetch = max_fetch and now = now and candles = candles]
          by blast
        with nc' Candles show ?thesis using skipped by simp
      next
        case False
        then obtain chosen where ch: "candles \<noteq> []"
          "pick_candle prev (rev (sort_key c_date candles)) = Some chosen" by auto
        let ?rec = "\<lparr>for_day = prev, prev_open = c_open chosen,
                  prev_high = c_high chosen, prev_low = c_low chosen,
                  prev_close = c_close chosen\<rparr>"
        have "prevday_fetch_step hist now prev max_fetch token st =
            (False,
             st\<lparr>fs_calls := fs_calls st @ [token],
                fs_service := (fs_service st)
                  \<lparr>option_prev_day_cache :=
                     (option_prev_day_cache (fs_service st))(token \<mapsto> ?rec)\<rparr>,
                fs_result := (fs_result st)(token \<mapsto> ?rec),
                fs_fetched_count := fs_fetched_count st + 1\<rparr>)"
          using nc' lt Candles ch
            step_stored [where hist = hist and st = st and token = token and prev = prev
              and max_fetch = max_fetch and now = now and candles = candles
              and chosen = chosen]
          by blast
        moreover have "for_day ?rec = prev" by simp
        ultimately show ?thesis using nc' Candles stored [of ?rec] by simp
      qed
    qed
  qed
qed

lemma loop_Cons:
  "prevday_fetch_loop hist now prev max_fetch (token # tokens) st =
     (if fst (prevday_fetch_step hist now prev max_fetch token st)
      then snd (prevday_fetch_step hist now prev max_fetch token st)
      else prevday_fetch_loop hist now prev max_fetch tokens
             (snd (prevday_fetch_step hist now prev max_fetch token st)))"
  by (simp split: prod.splits bool.splits)

lemma no_rate_limit_snoc:
  "no_rate_limit hist (calls @ [t]) \<longleftrightarrow>
     no_rate_limit hist calls \<and> hist calls t \<noteq> TooManyRequests"
proof
  assume a: "no_rate_limit hist (calls @ [t])"
  have "no_rate_limit hist calls"
    unfolding no_rate_limit_def
  proof (intro allI impI)
    fix n assume n: "n < length calls"
    with a have "hist (take n (calls @ [t])) ((calls @ [t]) ! n) \<noteq> TooManyRequests"
      by (simp add: no_rate_limit_def)
    with n show "hist (take n calls) (calls ! n) \<noteq> TooManyRequests"
      by (simp add: nth_append)
  qed
  moreover have "hist calls t \<noteq> TooManyRequests"
    using a [unfolded no_rate_limit_def, rule_format, of "length calls"] by simp
  ultimately show "no_rate_limit hist calls \<and> hist calls t \<noteq> TooManyRequests" by simp
next
  assume b: "no_rate_limit hist calls \<and> hist calls t \<noteq> TooManyRequests"
  show "no_rate_limit hist (calls @ [t])"
    unfolding no_rate_limit_def
  proof (intro allI impI)
    fix n assume "n < length (calls @ [t])"
    then have "n < length calls \<or> n = length calls" by auto
    then show "hist (take n (calls @ [t])) ((calls @ [t]) ! n) \<noteq> TooManyRequests"
    proof
      assume "n < length calls"
      with b show ?thesis by (simp add: no_rate_limit_def nth_append)
    next
      assume "n = length calls"
      with b show ?thesis by simp
    qed
  qed
qed

lemma cached_for_unique:
  "cached_for prev s t rec \<Longrightarrow> cached_for prev s t rec' \<Longrightarrow> rec = rec'"
  by (simp add: cached_for_def)

lemma step_limited:
  assumes "fst (prevday_fetch_step hist now prev max_fetch token st)"
  shows "fs_calls (snd (prevday_fetch_step hist now prev max_fetch token st)) =
        fs_calls st @ [token]
     \<and> hist (fs_calls st) token = TooManyRequests
     \<and> rate_limit_prevday_cooldown_until
         (fs_service (snd (prevday_fetch_step hist now prev max_fetch token st))) =
        Some (now + 180)"
  using assms
  by (cases rule: step_outcomes [of prev st token hist now max_fetch]) simp_all

lemma step_no_rate_limit:
  assumes "\<not> fst (prevday_fetch_step hist now prev max_fetch token st)"
    and "no_rate_limit hist (fs_calls st)"
  shows "no_rate_limit hist (fs_calls (snd (prevday_fetch_step hist now prev max_fetch token st)))"
  using assms
  by (cases rule: step_outcomes [of prev st token hist now max_fetch])
    (simp_all add: no_rate_limit_snoc)

lemma step_calls:
  "fs_calls (snd (prevday_fetch_step hist now prev max_fetch token st)) = fs_calls st
   \<or> fs_calls (snd (prevday_fetch_step hist now prev max_fetch token st)) = fs_calls st @ [token]"
  by (cases rule: step_outcomes [of prev st token hist now max_fetch]) simp_all

lemma step_keeps_cached:
  assumes "cached_for prev (fs_service st) t rec"
  shows "cached_for prev
       (fs_service (snd (prevday_fetch_step hist now prev max_fetch token st))) t rec
     \<and> (t \<notin> set (fs_calls st) \<longrightarrow>
          t \<notin> set (fs_calls (snd (prevday_fetch_step hist now prev max_fetch token st))))"
  using assms
  by (cases rule: step_outcomes [of prev st token hist now max_fetch])
    (auto simp: cached_for_def)

lemma step_result_in_cache:
  assumes "result_in_cache prev st"
  shows "result_in_cache prev (snd (prevday_fetch_step hist now prev max_fetch token st))"
  using assms
  by (cases rule: step_outcomes [of prev st token hist now max_fetch])
    (auto simp: cached_for_def result_in_cache_def)

lemma step_result_stable:
  assumes ric: "result_in_cache prev st" and r: "fs_result st t = Some rec"
  shows "fs_result (snd (prevday_fetch_step hist now prev max_fetch token st)) t = Some rec"
proof -
  from ric r have c: "cached_for prev (fs_service st) t rec"
    unfolding result_in_cache_def by blast
  show ?thesis
  proof (cases rule: step_outcomes [of prev st token hist now max_fetch])
    case (served rec')
    show ?thesis
    proof (cases "t = token")
      case True
      with c served(1) have "rec' = rec" using cached_for_unique by blast
      with served(2) True show ?thesis by simp
    next
      case False
      with served(2) r show ?thesis by simp
    qed
  next
    case deferred
    with r show ?thesis by simp
  next
    case limited
    with r show ?thesis by simp
  next
    case skipped
    with r show ?thesis by simp
  next
    case (stored rec')
    from stored(1) c have "t \<noteq> token" by blast
    with stored(4) r show ?thesis by simp
  qed
qed

lemma step_serves_cached:
  assumes "cached_for prev (fs_service st) token rec"
  shows "\<not> fst (prevday_fetch_step hist now prev max_fetch token st)
     \<and> fs_result (snd (prevday_fetch_step hist now prev max_fetch token st)) token = Some rec"
  using assms by (simp add: step_cached)

subsection \<open>The loop and the whole method\<close>

lemma loop_limited_last:
  assumes "no_rate_limit hist (fs_calls st)"
    and "n < length (fs_calls (prevday_fetch_loop hist now prev max_fetch tokens st))"
    and "hist (take n (fs_calls (prevday_fetch_loop hist now prev max_fetch tokens st)))
           (fs_calls (prevday_fetch_loop hist now prev max_fetch tokens st) ! n) = TooManyRequests"
  shows "Suc n = length (fs_calls (prevday_fetch_loop hist now prev max_fetch tokens st))
     \<and> rate_limit_prevday_cooldown_until
         (fs_service (prevday_fetch_loop hist now prev max_fetch tokens st)) = Some (now + 180)"
  using assms
proof (induction tokens arbitrary: st)
  case Nil
  then show ?case by (simp add: no_rate_limit_def)
next
  case (Cons token tokens)
  let ?r = "prevday_fetch_step hist now prev max_fetch token st"
  show ?case
  proof (cases "fst ?r")
    case True
    then have out: "prevday_fetch_loop hist now prev max_fetch (token # tokens) st = snd ?r"
      by (simp only: loop_Cons if_True)
    from step_limited [OF True]
    have lim: "fs_calls (snd ?r) = fs_calls st @ [token]"
      "rate_limit_prevday_cooldown_until (fs_service (snd ?r)) = Some (now + 180)"
      by simp_all
    from Cons.prems(2) out lim have n: "n < Suc (length (fs_calls st))" by simp
    have "n = length (fs_calls st)"
    proof (rule ccontr)
      assume "n \<noteq> length (fs_calls st)"
      with n have lt: "n < length (fs_calls st)" by simp
      with Cons.prems(3) out lim
      have "hist (take n (fs_calls st)) (fs_calls st ! n) = TooManyRequests"
        by (simp add: nth_append)
      with Cons.prems(1) lt show False by (simp add: no_rate_limit_def)
    qed
    with out lim show ?thesis by simp
  next
    case False
    then have out: "prevday_fetch_loop hist now prev max_fetch (token # tokens) st =
        prevday_fetch_loop hist now prev max_fetch tokens (snd ?r)"
      by (simp only: loop_Cons if_False)
    have "no_rate_limit hist (fs_calls (snd ?r))"
      using False Cons.prems(1) by (rule step_no_rate_limit)
    from Cons.IH [OF this] Cons.prems(2,3) show ?thesis unfolding out by blast
  qed
qed

lemma loop_keeps_cached:
  assumes "cached_for prev (fs_service st) t rec"
  shows "cached_for prev
       (fs_service (prevday_fetch_loop hist now prev max_fetch tokens st)) t rec
     \<and> (t \<notin> set (fs_calls st) \<longrightarrow>
          t \<notin> set (fs_calls (prevday_fetch_loop hist now prev max_fetch tokens st)))"
  using assms
proof (induction tokens arbitrary: st)
  case Nil
  then show ?case by simp
next
  case (Cons token tokens)
  let ?r = "prevday_fetch_step hist now prev max_fetch token st"
  note step = step_keeps_cached [OF Cons.prems, of hist now max_fetch token]
  show ?case
  proof (cases "fst ?r")
    case True
    then have "prevday_fetch_loop hist now prev max_fetch (token # tokens) st = snd ?r"
      by (simp only: loop_Cons if_True)
    with step show ?thesis by simp
  next
    case False
    then have out: "prevday_fetch_loop hist now prev max_fetch (token # tokens) st =
        prevday_fetch_loop hist now prev max_fetch tokens (snd ?r)"
      by (simp only: loop_Cons if_False)
    from step have c: "cached_for prev (fs_service (snd ?r)) t rec" by blast
    from Cons.IH [OF c] step show ?thesis unfolding out by blast
  qed
qed

lemma loop_result_in_cache:
  assumes "result_in_cache prev st"
  shows "result_in_cache prev (prevday_fetch_loop hist now prev max_fetch tokens st)"
  using assms
proof (induction tokens arbitrary: st)
  case Nil
  then show ?case by simp
next
  case (Cons token tokens)
  let ?r = "prevday_fetch_step hist now prev max_fetch token st"
  have step: "result_in_cache prev (snd ?r)" using Cons.prems by (rule step_result_in_cache)
  show ?case
  proof (cases "fst ?r")
    case True
    then have "prevday_fetch_loop hist now prev max_fetch (token # tokens) st = snd ?r"
      by (simp only: loop_Cons if_True)
    with step show ?thesis by simp
  next
    case False
    then have out: "prevday_fetch_loop hist now prev max_fetch (token # tokens) st =
        prevday_fetch_loop hist now prev max_fetch tokens (snd ?r)"
      by (simp only: loop_Cons if_False)
    from Cons.IH [OF step] show ?thesis unfolding out .
  qed
qed

lemma loop_result_stable:
  assumes "result_in_cache prev st" and "fs_result st t = Some rec"
  shows "fs_result (prevday_fetch_loop hist now prev max_fetch tokens st) t = Some rec"
  using assms
proof (induction tokens arbitrary: st)
  case Nil
  then show ?case by simp
next
  case (Cons token tokens)
  let ?r = "prevday_fetch_step hist now prev max_fetch token st"
  have ric: "result_in_cache prev (snd ?r)"
    using Cons.prems(1) by (rule step_result_in_cache)
  have res: "fs_result (snd ?r) t = Some rec"
    using Cons.prems by (rule step_result_stable)
  show ?case
  proof (cases "fst ?r")
    case True
    then have "prevday_fetch_loop hist now prev max_fetch (token # tokens) st = snd ?r"
      by (simp only: loop_Cons if_True)
    with res show ?thesis by simp
  next
    case False
    then have out: "prevday_fetch_loop hist now prev max_fetch (token # tokens) st =
        prevday_fetch_loop hist now prev max_fetch tokens (snd ?r)"
      by (simp only: loop_Cons if_False)
    from Cons.IH [OF ric res] show ?thesis unfolding out .
  qed
qed

lemma loop_serves_cached:
  assumes "no_rate_limit hist (fs_calls (prevday_fetch_loop hist now prev max_fetch tokens st))"
    and "result_in_cache prev st"
    and "t \<in> set tokens"
    and "cached_for prev (fs_service st) t rec"
  shows "fs_result (prevday_fetch_loop hist now prev max_fetch tokens st) t = Some rec"
  using assms
proof (induction tokens arbitrary: st)
  case Nil
  then show ?case by simp
next
  case (Cons token tokens)
  let ?r = "prevday_fetch_step hist now prev max_fetch token st"
  have ric: "result_in_cache prev (snd ?r)"
    using Cons.prems(2) by (rule step_result_in_cache)
  have kept: "cached_for prev (fs_service (snd ?r)) t rec"
    using step_keeps_cached [OF Cons.prems(4), of hist now max_fetch token] by blast
  have nostop: "\<not> fst ?r"
  proof
    assume stop: "fst ?r"
    then have out: "prevday_fetch_loop hist now prev max_fetch (token # tokens) st = snd ?r"
      by (simp only: loop_Cons if_True)
    from step_limited [OF stop] Cons.prems(1) show False
      unfolding out by (simp add: no_rate_limit_snoc)
  qed
  then have out: "prevday_fetch_loop hist now prev max_fetch (token # tokens) st =
      prevday_fetch_loop hist now prev max_fetch tokens (snd ?r)"
    by (simp only: loop_Cons if_False)
  show ?case
  proof (cases "t = token")
    case True
    with Cons.prems(4) have "fs_result (snd ?r) t = Some rec"
      using step_serves_cached [of prev st token rec hist now max_fetch] by simp
    with ric show ?thesis unfolding out by (rule loop_result_stable)
  next
    case False
    with Cons.prems(3) have "t \<in> set tokens" by simp
    with Cons.IH [of "snd ?r"] Cons.prems(1) ric kept show ?thesis unfolding out by blast
  qed
qed

lemma loop_calls_distinct:
  "\<exists>new. fs_calls (prevday_fetch_loop hist now prev max_fetch tokens st) = fs_calls st @ new
     \<and> set new \<subseteq> set tokens \<and> (distinct tokens \<longrightarrow> distinct new)"
proof (induction tokens arbitrary: st)
  case Nil
  then show ?case by simp
next
  case (Cons token tokens)
  let ?r = "prevday_fetch_step hist now prev max_fetch token st"
  from step_calls [of hist now prev max_fetch token st]
  obtain one where one: "fs_calls (snd ?r) = fs_calls st @ one" "one = [] \<or> one = [token]"
    by auto
  show ?case
  proof (cases "fst ?r")
    case True
    then have "prevday_fetch_loop hist now prev max_fetch (token # tokens) st = snd ?r"
      by (simp only: loop_Cons if_True)
    with one show ?thesis by auto
  next
    case False
    then have out: "prevday_fetch_loop hist now prev max_fetch (token # tokens) st =
        prevday_fetch_loop hist now prev max_fetch tokens (snd ?r)"
      by (simp only: loop_Cons if_False)
    from Cons.IH [of "snd ?r"] obtain new where new:
      "fs_calls (prevday_fetch_loop hist now prev max_fetch tokens (snd ?r)) =
         fs_calls (snd ?r) @ new"
      "set new \<subseteq> set tokens" "distinct tokens \<longrightarrow> distinct new"
      by blast
    have "fs_calls (prevday_fetch_loop hist now prev max_fetch (token # tokens) st) =
        fs_calls st @ (one @ new)"
      unfolding out using new(1) one(1) by simp
    moreover have "set (one @ new) \<subseteq> set (token # tokens)" using one(2) new(2) by auto
    moreover have "distinct (token # tokens) \<longrightarrow> distinct (one @ new)"
      using one(2) new(2,3) by auto
    ultimately show ?thesis by blast
  qed
qed

lemma get_result_in_cache:
  "result_in_cache (get_previous_trading_day now)
     (get_previous_day_option_ohlc hist now tokens max_fetch s)"
proof -
  let ?st0 = "\<lparr>fs_result = Map.empty, fs_service = s, fs_fetched_count = 0, fs_calls = []\<rparr>"
  have st0: "result_in_cache (get_previous_trading_day now) ?st0"
    by (simp add: result_in_cache_def)
  then have "result_in_cache (get_previous_trading_day now)
      (prevday_fetch_loop hist now (get_previous_trading_day now) max_fetch tokens ?st0)"
    by (rule loop_result_in_cache)
  with st0 show ?thesis by (simp add: get_previous_day_option_ohlc_def Let_def)
qed

lemma get_limited_last:
  assumes "n < length (fs_calls (get_previous_day_option_ohlc hist now tokens max_fetch s))"
    and "hist (take n (fs_calls (get_previous_day_option_ohlc hist now tokens max_fetch s)))
           (fs_calls (get_previous_day_option_ohlc hist now tokens max_fetch s) ! n)
         = TooManyRequests"
  shows "Suc n = length (fs_calls (get_previous_day_option_ohlc hist now tokens max_fetch s))
     \<and> rate_limit_prevday_cooldown_until
         (fs_service (get_previous_day_option_ohlc hist now tokens max_fetch s))
        = Some (now + 180)"
proof -
  let ?st0 = "\<lparr>fs_result = Map.empty, fs_service = s, fs_fetched_count = 0, fs_calls = []\<rparr>"
  let ?loop = "prevday_fetch_loop hist now (get_previous_trading_day now) max_fetch tokens ?st0"
  have cases: "get_previous_day_option_ohlc hist now tokens max_fetch s = ?st0
      \<or> get_previous_day_option_ohlc hist now tokens max_fetch s = ?loop"
    by (simp add: get_previous_day_option_ohlc_def Let_def)
  have nrl: "no_rate_limit hist (fs_calls ?st0)" by (simp add: no_rate_limit_def)
  from cases show ?thesis
  proof
    assume "get_previous_day_option_ohlc hist now tokens max_fetch s = ?st0"
    with assms(1) show ?thesis by simp
  next
    assume eq: "get_previous_day_option_ohlc hist now tokens max_fetch s = ?loop"
    from loop_limited_last [OF nrl, of n now "get_previous_trading_day now" max_fetch tokens]
      assms
    show ?thesis unfolding eq by blast
  qed
qed

lemma get_not_refetched:
  assumes "cached_for (get_previous_trading_day now) s t rec"
  shows "t \<notin> set (fs_calls (get_previous_day_option_ohlc hist now tokens max_fetch s))"
proof -
  let ?st0 = "\<lparr>fs_result = Map.empty, fs_service = s, fs_fetched_count = 0, fs_calls = []\<rparr>"
  let ?loop = "prevday_fetch_loop hist now (get_previous_trading_day now) max_fetch tokens ?st0"
  have cases: "get_previous_day_option_ohlc hist now tokens max_fetch s = ?st0
      \<or> get_previous_day_option_ohlc hist now tokens max_fetch s = ?loop"
    by (simp add: get_previous_day_option_ohlc_def Let_def)
  have c: "cached_for (get_previous_trading_day now) (fs_service ?st0) t rec"
    using assms by simp
  from loop_keeps_cached [OF c, of hist now max_fetch tokens]
  have "t \<notin> set (fs_calls ?loop)" by simp
  with cases show ?thesis by auto
qed

lemma get_serves_cached:
  assumes "cached_for (get_previous_trading_day now) s t rec"
    and "t \<in> set tokens" and "\<not> cooldown_active s now"
    and "no_rate_limit hist (fs_calls (get_previous_day_option_ohlc hist now tokens max_fetch s))"
  shows "fs_result (get_previous_day_option_ohlc hist now tokens max_fetch s) t = Some rec"
proof -
  let ?st0 = "\<lparr>fs_result = Map.empty, fs_service = s, fs_fetched_count = 0, fs_calls = []\<rparr>"
  let ?loop = "prevday_fetch_loop hist now (get_previous_trading_day now) max_fetch tokens ?st0"
  from assms(2) have "tokens \<noteq> []" by auto
  with assms(3) have eq: "get_previous_day_option_ohlc hist now tokens max_fetch s = ?loop"
    by (simp add: get_previous_day_option_ohlc_def Let_def)
  have ric: "result_in_cache (get_previous_trading_day now) ?st0"
    by (simp add: result_in_cache_def)
  have c: "cached_for (get_previous_trading_day now) (fs_service ?st0) t rec"
    using assms(1) by simp
  from assms(4) have "no_rate_limit hist (fs_calls ?loop)" unfolding eq .
  from loop_serves_cached [OF this ric assms(2) c] show ?thesis unfolding eq .
qed

lemma get_calls_distinct:
  assumes "distinct tokens"
  shows "distinct (fs_calls (get_previous_day_option_ohlc hist now tokens max_fetch s))"
proof -
  let ?st0 = "\<lparr>fs_result = Map.empty, fs_service = s, fs_fetched_count = 0, fs_calls = []\<rparr>"
  let ?loop = "prevday_fetch_loop hist now (get_previous_trading_day now) max_fetch tokens ?st0"
  have cases: "get_previous_day_option_ohlc hist now tokens max_fetch s = ?st0
      \<or> get_previous_day_option_ohlc hist now tokens max_fetch s = ?loop"
    by (simp add: get_previous_day_option_ohlc_def Let_def)
  from loop_calls_distinct [of hist now "get_previous_trading_day now" max_fetch tokens ?st0]
    assms
  have "distinct (fs_calls ?loop)" by auto
  with cases show ?thesis by auto
qed

lemma count_list_distinct: "distinct xs \<Longrightarrow> count_list xs t \<le> 1"
  by (induction xs) (auto simp: count_list_0_iff)

lemma count_list_notin: "t \<notin> set xs \<Longrightarrow> count_list xs t = 0"
  by (simp add: count_list_0_iff)

subsection \<open>Concrete runs\<close>

text \<open>
  The runs below are made on Monday 2026-11-02 (ordinal 739922) at 10:00, so the previous
  trading day is Friday (ordinal 739919); the candle is dated on that Friday.
\<close>

lemma prev_day_concrete:
  "get_previous_trading_day 63929296800 = 739919"
  "get_previous_trading_day 63929296860 = 739919"
  "get_previous_trading_day 63929297000 = 739919"
  by (simp_all add: get_previous_trading_day_def roll_back_weekend_cases weekday_def date_of_def)

lemma run_no_candles:
  "get_previous_day_option_ohlc upstream_no_candles now [7] 60 init_service =
     \<lparr>fs_result = Map.empty, fs_service = init_service, fs_fetched_count = 0, fs_calls = [7]\<rparr>"
  by (simp add: get_previous_day_option_ohlc_def cooldown_active_def prevday_fetch_step_def
      upstream_no_candles_def init_service_def Let_def)

lemma run_limited:
  "get_previous_day_option_ohlc
     (upstream_limit_after_first
        \<lparr>c_date = 63929001600, c_open = 1, c_high = 2, c_low = 1, c_close = 2\<rparr>)
     63929296800 (1 # 2 # rest) 60 init_service =
     \<lparr>fs_result = [1 \<mapsto> \<lparr>for_day = 739919, prev_open = 1, prev_high = 2, prev_low = 1,
                          prev_close = 2\<rparr>],
      fs_service = init_service
        \<lparr>option_prev_day_cache :=
           [1 \<mapsto> \<lparr>for_day = 739919, prev_open = 1, prev_high = 2, prev_low = 1,
                    prev_close = 2\<rparr>],
         rate_limit_prevday_cooldown_until := Some 63929296980\<rparr>,
      fs_fetched_count = 1, fs_calls = [1, 2]\<rparr>"
  by (simp add: get_previous_day_option_ohlc_def cooldown_active_def prevday_fetch_step_def
      upstream_limit_after_first_def init_service_def Let_def prev_day_concrete date_of_def)

subsection \<open>Rate limit and other fetch errors\<close>

text \<open>
  Claim C3. When the historical fetch of a token raises the rate-limit error, the loop
  ends at once with that call logged and the prev-day cooldown set to now plus 180
  seconds: the remaining tokens are not touched. When it raises any other error, only that
  token is skipped and the loop goes on with the remaining tokens. For the whole method:
  a call answered with the rate-limit error is the last network call of the invocation,
  and afterwards the cooldown expires between 120 and 180 seconds from now. The method is
  a total function: it returns its result map in every case.
\<close>

theorem rate_limit_aborts_batch:
  "((\<forall>rec. \<not> cached_for prev (fs_service st) token rec) \<and> fs_fetched_count st < max_fetch
      \<and> hist (fs_calls st) token = TooManyRequests \<longrightarrow>
      prevday_fetch_loop hist now prev max_fetch (token # rest) st =
        st\<lparr>fs_calls := fs_calls st @ [token],
           fs_service := (fs_service st)
             \<lparr>rate_limit_prevday_cooldown_until := Some (now + 180)\<rparr>\<rparr>)
   \<and> ((\<forall>rec. \<not> cached_for prev (fs_service st) token rec) \<and> fs_fetched_count st < max_fetch
        \<and> hist (fs_calls st) token = FetchError \<longrightarrow>
        prevday_fetch_loop hist now prev max_fetch (token # rest) st =
          prevday_fetch_loop hist now prev max_fetch rest
            (st\<lparr>fs_calls := fs_calls st @ [token]\<rparr>))
   \<and> (n < length (fs_calls (get_previous_day_option_ohlc hist now tokens max_fetch s))
        \<and> hist (take n (fs_calls (get_previous_day_option_ohlc hist now tokens max_fetch s)))
             (fs_calls (get_previous_day_option_ohlc hist now tokens max_fetch s) ! n)
           = TooManyRequests \<longrightarrow>
        Suc n = length (fs_calls (get_previous_day_option_ohlc hist now tokens max_fetch s))
        \<and> (\<exists>cooldown_until.
              rate_limit_prevday_cooldown_until
                (fs_service (get_previous_day_option_ohlc hist now tokens max_fetch s))
              = Some cooldown_until
              \<and> now + 120 \<le> cooldown_until \<and> cooldown_until \<le> now + 180))"
proof (intro conjI impI)
  assume "(\<forall>rec. \<not> cached_for prev (fs_service st) token rec) \<and> fs_fetched_count st < max_fetch
      \<and> hist (fs_calls st) token = TooManyRequests"
  then show "prevday_fetch_loop hist now prev max_fetch (token # rest) st =
        st\<lparr>fs_calls := fs_calls st @ [token],
           fs_service := (fs_service st)
             \<lparr>rate_limit_prevday_cooldown_until := Some (now + 180)\<rparr>\<rparr>"
    using step_rate_limited [where hist = hist and st = st and token = token and prev = prev
        and max_fetch = max_fetch and now = now]
    by (simp only: loop_Cons) simp
next
  assume "(\<forall>rec. \<not> cached_for prev (fs_service st) token rec) \<and> fs_fetched_count st < max_fetch
        \<and> hist (fs_calls st) token = FetchError"
  then show "prevday_fetch_loop hist now prev max_fetch (token # rest) st =
          prevday_fetch_loop hist now prev max_fetch rest
            (st\<lparr>fs_calls := fs_calls st @ [token]\<rparr>)"
    using step_fetch_error [where hist = hist and st = st and token = token and prev = prev
        and max_fetch = max_fetch and now = now]
    by (simp only: loop_Cons) simp
next
  assume h: "n < length (fs_calls (get_previous_day_option_ohlc hist now tokens max_fetch s))
        \<and> hist (take n (fs_calls (get_previous_day_option_ohlc hist now tokens max_fetch s)))
             (fs_calls (get_previous_day_option_ohlc hist now tokens max_fetch s) ! n)
           = TooManyRequests"
  then show "Suc n = length (fs_calls (get_previous_day_option_ohlc hist now tokens max_fetch s))"
    using get_limited_last [of n hist now tokens max_fetch s] by blast
  from h show "\<exists>cooldown_until.
              rate_limit_prevday_cooldown_until
                (fs_service (get_previous_day_option_ohlc hist now tokens max_fetch s))
              = Some cooldown_until
              \<and> now + 120 \<le> cooldown_until \<and> cooldown_until \<le> now + 180"
    using get_limited_last [of n hist now tokens max_fetch s] by simp
qed

theorem rate_limit_aborts_batch_witness:
  "prevday_fetch_loop (\<lambda>calls token. TooManyRequests) 63929296800 739919 60 [1, 2, 3]
     \<lparr>fs_result = Map.empty, fs_service = init_service, fs_fetched_count = 0, fs_calls = []\<rparr> =
     \<lparr>fs_result = Map.empty,
      fs_service = init_service\<lparr>rate_limit_prevday_cooldown_until := Some 63929296980\<rparr>,
      fs_fetched_count = 0, fs_calls = [1]\<rparr>
   \<and> prevday_fetch_loop (\<lambda>calls token. FetchError) 63929296800 739919 60 [1, 2]
       \<lparr>fs_result = Map.empty, fs_service = init_service, fs_fetched_count = 0, fs_calls = []\<rparr> =
      prevday_fetch_loop (\<lambda>calls token. FetchError) 63929296800 739919 60 [2]
       \<lparr>fs_result = Map.empty, fs_service = init_service, fs_fetched_count = 0, fs_calls = [1]\<rparr>
   \<and> fs_calls
       (get_previous_day_option_ohlc
          (upstream_limit_after_first
             \<lparr>c_date = 63929001600, c_open = 1, c_high = 2, c_low = 1, c_close = 2\<rparr>)
          63929296800 [1, 2, 3] 60 init_service) = [1, 2]
   \<and> rate_limit_prevday_cooldown_until
       (fs_service
          (get_previous_day_option_ohlc
             (upstream_limit_after_first
                \<lparr>c_date = 63929001600, c_open = 1, c_high = 2, c_low = 1, c_close = 2\<rparr>)
             63929296800 [1, 2, 3] 60 init_service)) = Some (63929296800 + 180)
   \<and> Suc 1 = length (fs_calls
       (get_previous_day_option_ohlc
          (upstream_limit_after_first
             \<lparr>c_date = 63929001600, c_open = 1, c_high = 2, c_low = 1, c_close = 2\<rparr>)
          63929296800 [1, 2, 3] 60 init_service))"
proof -
  let ?st0 = "\<lparr>fs_result = Map.empty, fs_service = init_service, fs_fetched_count = 0,
      fs_calls = []\<rparr>"
  let ?c = "\<lparr>c_date = 63929001600, c_open = 1, c_high = 2, c_low = 1, c_close = 2\<rparr>"
  let ?out = "get_previous_day_option_ohlc (upstream_limit_after_first ?c)
      63929296800 [1, 2, 3] 60 init_service"
  have nc: "\<forall>rec. \<not> cached_for 739919 (fs_service ?st0) 1 rec"
    by (simp add: cached_for_def init_service_def)
  have a: "prevday_fetch_loop (\<lambda>calls token. TooManyRequests) 63929296800 739919 60 [1, 2, 3] ?st0 =
     \<lparr>fs_result = Map.empty,
      fs_service = init_service\<lparr>rate_limit_prevday_cooldown_until := Some 63929296980\<rparr>,
      fs_fetched_count = 0, fs_calls = [1]\<rparr>"
    using nc rate_limit_aborts_batch [where hist = "\<lambda>calls token. TooManyRequests"
        and prev = 739919 and st = ?st0 and token = 1 and max_fetch = 60
        and now = 63929296800 and rest = "[2, 3]"]
    by simp
  have b: "prevday_fetch_loop (\<lambda>calls token. FetchError) 63929296800 739919 60 [1, 2] ?st0 =
      prevday_fetch_loop (\<lambda>calls token. FetchError) 63929296800 739919 60 [2]
       \<lparr>fs_result = Map.empty, fs_service = init_service, fs_fetched_count = 0, fs_calls = [1]\<rparr>"
    using nc rate_limit_aborts_batch [where hist = "\<lambda>calls token. FetchError"
        and prev = 739919 and st = ?st0 and token = 1 and max_fetch = 60
        and now = 63929296800 and rest = "[2]"]
    by simp
  have calls: "fs_calls ?out = [1, 2]" by (simp only: run_limited) simp
  have lim: "upstream_limit_after_first ?c (take 1 (fs_calls ?out)) (fs_calls ?out ! 1)
      = TooManyRequests"
    by (simp add: calls upstream_limit_after_first_def)
  have c: "rate_limit_prevday_cooldown_until (fs_service ?out) = Some (63929296800 + 180)"
    by (simp only: run_limited) simp
  note third = rate_limit_aborts_batch [where hist = "upstream_limit_after_first ?c"
        and n = 1 and now = 63929296800 and tokens = "[1, 2, 3]" and max_fetch = 60
        and s = init_service, THEN conjunct2, THEN conjunct2]
  have n: "1 < length (fs_calls ?out)" by (simp only: calls) simp
  from third n lim have d: "Suc 1 = length (fs_calls ?out)" by blast
  from a b calls c d show ?thesis by blast
qed

subsection \<open>Two successive calls\<close>

text \<open>
  Claim C9, as stated, fails in two ways. A token for which the upstream has no candle is
  not stored, so each of two successive calls fetches it: two network fetches of token 7.
  And a token stored by a first call that then hit the rate limit is not served by a second
  call made one minute later, during the cooldown: the second result is empty.
\<close>

theorem repeated_fetch_and_cooldown:
  "count_list
     (fs_calls (get_previous_day_option_ohlc upstream_no_candles 63929296800 [7] 60 init_service)
      @ fs_calls (get_previous_day_option_ohlc upstream_no_candles 63929296860 [7] 60
          (fs_service
             (get_previous_day_option_ohlc upstream_no_candles 63929296800 [7] 60 init_service))))
     7 = 2
   \<and> fs_result
       (get_previous_day_option_ohlc
          (upstream_limit_after_first
             \<lparr>c_date = 63929001600, c_open = 1, c_high = 2, c_low = 1, c_close = 2\<rparr>)
          63929296800 [1, 2] 60 init_service) 1 =
      Some \<lparr>for_day = 739919, prev_open = 1, prev_high = 2, prev_low = 1, prev_close = 2\<rparr>
   \<and> fs_result
       (get_previous_day_option_ohlc
          (upstream_limit_after_first
             \<lparr>c_date = 63929001600, c_open = 1, c_high = 2, c_low = 1, c_close = 2\<rparr>)
          63929296860 [1, 2] 60
          (fs_service
             (get_previous_day_option_ohlc
                (upstream_limit_after_first
                   \<lparr>c_date = 63929001600, c_open = 1, c_high = 2, c_low = 1, c_close = 2\<rparr>)
                63929296800 [1, 2] 60 init_service))) 1 = None"
proof -
  let ?c = "\<lparr>c_date = 63929001600, c_open = 1, c_high = 2, c_low = 1, c_close = 2\<rparr>"
  have a1: "fs_service
      (get_previous_day_option_ohlc upstream_no_candles 63929296800 [7] 60 init_service)
      = init_service"
    by (simp only: run_no_candles) simp
  have a: "count_list
     (fs_calls (get_previous_day_option_ohlc upstream_no_candles 63929296800 [7] 60 init_service)
      @ fs_calls (get_previous_day_option_ohlc upstream_no_candles 63929296860 [7] 60
          (fs_service
             (get_previous_day_option_ohlc upstream_no_candles 63929296800 [7] 60 init_service))))
     7 = 2"
    by (simp only: a1) (simp add: run_no_candles)
  have b: "fs_result
       (get_previous_day_option_ohlc (upstream_limit_after_first ?c)
          63929296800 [1, 2] 60 init_service) 1 =
      Some \<lparr>for_day = 739919, prev_open = 1, prev_high = 2, prev_low = 1, prev_close = 2\<rparr>"
    by (simp only: run_limited) simp
  have c: "fs_result
       (get_previous_day_option_ohlc (upstream_limit_after_first ?c) 63929296860 [1, 2] 60
          (fs_service
             (get_previous_day_option_ohlc (upstream_limit_after_first ?c)
                63929296800 [1, 2] 60 init_service))) 1 = None"
    by (simp only: run_limited)
      (simp add: get_previous_day_option_ohlc_def cooldown_active_def Let_def)
  from a b c show ?thesis by blast
qed

text \<open>
  Claim C9, amended. For two successive calls with the same previous trading day, every
  token whose record the first call returned is not fetched over the network by the second
  call; with a duplicate-free token list in the first call it is fetched at most once over
  both calls; and the second call serves it from the in-memory cache when it is in the
  second token list, no cooldown is active at the second call and no call of the second
  invocation is answered with the rate-limit error.
\<close>

theorem stored_tokens_not_refetched:
  "get_previous_trading_day now2 = get_previous_trading_day now1
   \<and> fs_result (get_previous_day_option_ohlc hist1 now1 tokens1 max_fetch1 s) t = Some rec \<longrightarrow>
     t \<notin> set (fs_calls (get_previous_day_option_ohlc hist2 now2 tokens2 max_fetch2
                 (fs_service (get_previous_day_option_ohlc hist1 now1 tokens1 max_fetch1 s))))
     \<and> (distinct tokens1 \<longrightarrow>
          count_list
            (fs_calls (get_previous_day_option_ohlc hist1 now1 tokens1 max_fetch1 s)
             @ fs_calls (get_previous_day_option_ohlc hist2 now2 tokens2 max_fetch2
                 (fs_service (get_previous_day_option_ohlc hist1 now1 tokens1 max_fetch1 s)))) t
          \<le> 1)
     \<and> (t \<in> set tokens2
          \<and> \<not> cooldown_active
                (fs_service (get_previous_day_option_ohlc hist1 now1 tokens1 max_fetch1 s)) now2
          \<and> no_rate_limit hist2
               (fs_calls (get_previous_day_option_ohlc hist2 now2 tokens2 max_fetch2
                  (fs_service (get_previous_day_option_ohlc hist1 now1 tokens1 max_fetch1 s))))
          \<longrightarrow>
          fs_result (get_previous_day_option_ohlc hist2 now2 tokens2 max_fetch2
             (fs_service (get_previous_day_option_ohlc hist1 now1 tokens1 max_fetch1 s))) t
          = Some rec)"
proof (intro impI)
  let ?out1 = "get_previous_day_option_ohlc hist1 now1 tokens1 max_fetch1 s"
  let ?out2 = "get_previous_day_option_ohlc hist2 now2 tokens2 max_fetch2 (fs_service ?out1)"
  assume h: "get_previous_trading_day now2 = get_previous_trading_day now1
     \<and> fs_result ?out1 t = Some rec"
  from get_result_in_cache [of now1 hist1 tokens1 max_fetch1 s] h
  have c: "cached_for (get_previous_trading_day now2) (fs_service ?out1) t rec"
    unfolding result_in_cache_def by simp
  have a: "t \<notin> set (fs_calls ?out2)" using c by (rule get_not_refetched)
  have b: "distinct tokens1 \<longrightarrow> count_list (fs_calls ?out1 @ fs_calls ?out2) t \<le> 1"
  proof
    assume "distinct tokens1"
    then have "distinct (fs_calls ?out1)" by (rule get_calls_distinct)
    then have "count_list (fs_calls ?out1) t \<le> 1" by (rule count_list_distinct)
    with a show "count_list (fs_calls ?out1 @ fs_calls ?out2) t \<le> 1"
      by (simp add: count_list_notin)
  qed
  have d: "t \<in> set tokens2 \<and> \<not> cooldown_active (fs_service ?out1) now2
      \<and> no_rate_limit hist2 (fs_calls ?out2) \<longrightarrow> fs_result ?out2 t = Some rec"
    using get_serves_cached [OF c, of tokens2 hist2 max_fetch2] by blast
  from a b d show "t \<notin> set (fs_calls ?out2)
     \<and> (distinct tokens1 \<longrightarrow> count_list (fs_calls ?out1 @ fs_calls ?out2) t \<le> 1)
     \<and> (t \<in> set tokens2 \<and> \<not> cooldown_active (fs_service ?out1) now2
          \<and> no_rate_limit hist2 (fs_calls ?out2) \<longrightarrow> fs_result ?out2 t = Some rec)"
    by blast
qed

theorem stored_tokens_not_refetched_witness:
  "fs_result
     (get_previous_day_option_ohlc
        (upstream_limit_after_first
           \<lparr>c_date = 63929001600, c_open = 1, c_high = 2, c_low = 1, c_close = 2\<rparr>)
        63929296800 [1, 2] 60 init_service) 1 =
     Some \<lparr>for_day = 739919, prev_open = 1, prev_high = 2, prev_low = 1, prev_close = 2\<rparr>
   \<and> 1 \<notin> set (fs_calls
       (get_previous_day_option_ohlc upstream_no_candles 63929297000 [1, 2] 60
          (fs_service
             (get_previous_day_option_ohlc
                (upstream_limit_after_first
                   \<lparr>c_date = 63929001600, c_open = 1, c_high = 2, c_low = 1, c_close = 2\<rparr>)
                63929296800 [1, 2] 60 init_service))))
   \<and> fs_result
       (get_previous_day_option_ohlc upstream_no_candles 63929297000 [1, 2] 60
          (fs_service
             (get_previous_day_option_ohlc
                (upstream_limit_after_first
                   \<lparr>c_date = 63929001600, c_open = 1, c_high = 2, c_low = 1, c_close = 2\<rparr>)
                63929296800 [1, 2] 60 init_service))) 1 =
     Some \<lparr>for_day = 739919, prev_open = 1, prev_high = 2, prev_low = 1, prev_close = 2\<rparr>"
proof -
  let ?c = "\<lparr>c_date = 63929001600, c_open = 1, c_high = 2, c_low = 1, c_close = 2\<rparr>"
  let ?rec = "\<lparr>for_day = 739919, prev_open = 1, prev_high = 2, prev_low = 1, prev_close = 2\<rparr>"
  let ?out1 = "get_previous_day_option_ohlc (upstream_limit_after_first ?c)
      63929296800 [1, 2] 60 init_service"
  let ?out2 = "get_previous_day_option_ohlc upstream_no_candles 63929297000 [1, 2] 60
      (fs_service ?out1)"
  have day: "get_previous_trading_day 63929297000 = get_previous_trading_day 63929296800"
    by (simp add: prev_day_concrete)
  have stored: "fs_result ?out1 1 = Some ?rec" by (simp only: run_limited) simp
  have cool: "\<not> cooldown_active (fs_service ?out1) 63929297000"
    by (simp only: run_limited) (simp add: cooldown_active_def)
  have calls2: "fs_calls ?out2 = [2]"
    by (simp only: run_limited)
      (simp add: get_previous_day_option_ohlc_def cooldown_active_def
        prevday_fetch_step_def upstream_no_candles_def init_service_def Let_def
        prev_day_concrete)
  have nrl: "no_rate_limit upstream_no_candles (fs_calls ?out2)"
    unfolding calls2 by (simp add: no_rate_limit_def upstream_no_candles_def)
  from stored_tokens_not_refetched [where ?now1.0 = 63929296800 and ?now2.0 = 63929297000
      and ?hist1.0 = "upstream_limit_after_first ?c" and ?hist2.0 = upstream_no_candles
      and ?tokens1.0 = "[1, 2]" and ?tokens2.0 = "[1, 2]" and ?max_fetch1.0 = 60
      and ?max_fetch2.0 = 60 and s = init_service and t = 1 and rec = ?rec]
    day stored cool nrl
  have "1 \<notin> set (fs_calls ?out2) \<and> fs_result ?out2 1 = Some ?rec" by simp
  with stored show ?thesis by blast
qed

end
